theory Spec2Isabelle
  imports Complex_Main "HOL-Library.Word" "HOL-Library.Sublist"
begin

section \<open>Configuration constants of eval.c\<close>

definition MAX_TESTS :: nat where
  "MAX_TESTS = 20"

definition TIMEOUT_SECONDS :: int where
  "TIMEOUT_SECONDS = 5"

definition MAX_OUTPUT_SIZE :: nat where
  "MAX_OUTPUT_SIZE = 4096"

definition EXEC_FAILURE_EXIT_CODE :: "8 word" where
  "EXEC_FAILURE_EXIT_CODE = 127"

definition ROBUSTNESS_SIGINT_WAIT_US :: nat where
  "ROBUSTNESS_SIGINT_WAIT_US = 200000"

definition SIGINT :: nat where
  "SIGINT = 2"

definition SIGKILL :: nat where
  "SIGKILL = 9"

definition NUL :: char where
  "NUL = CHR 0x00"

section \<open>The operating system as the evaluator sees it\<close>

text \<open>
  The evaluator is a single-threaded POSIX process. Its system calls are modelled as
  functions on a record of the kernel state it can observe: the wall clock in
  milliseconds, its own table of open descriptors, its children that have not been
  reaped (running or zombie), the bytes buffered in the pipes it reads from, for each
  pipe end it holds the time at which the other end is closed, the children it has
  reaped with the status \<open>waitpid\<close> reported, and a log of the calls it has issued.

  What the kernel and the program under test decide is an oracle, \<open>run_env\<close>: whether
  \<open>pipe\<close> and \<open>fork\<close> succeed, whether \<open>execl\<close> succeeds in the child, what the
  artifact does on a given standard input, and how much longer than asked each
  \<open>usleep\<close> takes. Time passes in \<open>usleep\<close>, in a blocking \<open>waitpid\<close> and in a
  \<open>read\<close> that has to wait; the clock never goes back, and \<open>long\<close> is wide enough
  for its readings in milliseconds. A call that never returns to the evaluator, because
  it blocks for ever or because the evaluator is killed in it, has the result \<open>None\<close>.
  The evaluator installs handlers for \<open>SIGINT\<close> and \<open>SIGTERM\<close> only, so
  \<open>SIGPIPE\<close>, which its own \<open>write\<close> can raise, kills it; signals sent to it from
  outside are not part of the model.
\<close>

datatype wstatus = Exited "8 word" | Signaled nat

fun WIFEXITED :: "wstatus \<Rightarrow> bool" where
  "WIFEXITED (Exited c) = True"
| "WIFEXITED (Signaled s) = False"

fun WEXITSTATUS :: "wstatus \<Rightarrow> 8 word" where
  "WEXITSTATUS (Exited c) = c"
| "WEXITSTATUS (Signaled s) = 0"

text \<open>
  A child process: the clock time at which it terminates (or has terminated) if nothing
  else happens to it, \<open>None\<close> when it runs forever; the status it leaves then; the bytes
  it writes to its standard output and error; the read end (in the evaluator) of the
  pipe these go to, if any; and what an interrupt signal does to it while it runs:
  \<open>None\<close> when the signal is ignored, otherwise the delay after which it terminates
  (\<open>None\<close>: never) and the status it leaves.
\<close>

record proc =
  dies_at :: "nat option"
  dies_with :: wstatus
  piped :: string
  out_pipe :: "nat option"
  sigint_effect :: "(nat option \<times> wstatus) option"

datatype syscall =
  SysPipe
| SysFork
| SysClose nat
| SysWrite nat string
| SysRead nat nat
| SysKill nat nat
| SysWaitpid nat bool
| SysUsleep nat

text \<open>
  \<open>peers\<close> maps a pipe end the evaluator holds to the clock time from which no other
  process holds the opposite end of that pipe any more, \<open>None\<close> when one always will.
\<close>

record world =
  clock :: nat
  open_fds :: "nat list"
  procs :: "(nat \<times> proc) list"
  pipes :: "(nat \<times> string) list"
  peers :: "(nat \<times> nat option) list"
  reaped :: "(nat \<times> wstatus) list"
  calls :: "syscall list"

text \<open>
  What the artifact does once it runs, as a function of its standard input: how long
  it lives, how it ends, what it prints, how it takes an interrupt, and for how long
  it, or a process it has started, keeps its standard input open and keeps its
  standard output and error open (\<open>None\<close>: for ever). The evaluator's clock does not
  advance between \<open>fork\<close> and the first poll, so a time of 0 ms is one that is over
  before the parent writes the input: which of the two comes first is for the oracle
  to say.
\<close>

record behaviour =
  lifetime :: "nat option"
  ending :: wstatus
  written :: string
  on_sigint :: "(nat option \<times> wstatus) option"
  stdin_open_for :: "nat option"
  stdout_open_for :: "nat option"

text \<open>
  \<open>exec_failure_lag\<close> is the time the child of \<open>run_test_process\<close> takes to exit
  when \<open>execl\<close> has failed.
\<close>

record run_env =
  pipe1_fails :: bool
  pipe2_fails :: bool
  fork_fails :: bool
  exec_fails :: bool
  exec_failure_lag :: nat
  artifact :: "string \<Rightarrow> behaviour"
  oversleep :: "nat \<Rightarrow> nat"
  settle_oversleep :: nat
  inherited_stdin :: string

definition fresh :: "nat list \<Rightarrow> nat" where
  "fresh xs = Suc (fold max xs 0)"

definition alive :: "nat \<Rightarrow> proc \<Rightarrow> bool" where
  "alive now p = (case dies_at p of None \<Rightarrow> True | Some t \<Rightarrow> now < t)"

definition remove_proc :: "nat \<Rightarrow> (nat \<times> proc) list \<Rightarrow> (nat \<times> proc) list" where
  "remove_proc pid ps = filter (\<lambda>e. fst e \<noteq> pid) ps"

definition update_proc :: "nat \<Rightarrow> proc \<Rightarrow> (nat \<times> proc) list \<Rightarrow> (nat \<times> proc) list" where
  "update_proc pid p ps = map (\<lambda>e. if fst e = pid then (pid, p) else e) ps"

definition current_time_ms :: "world \<Rightarrow> int" where
  "current_time_ms w = int (clock w)"

text \<open>\<open>pipe\<close>: on success two descriptors not in use, the read end first.\<close>

definition sys_pipe :: "bool \<Rightarrow> world \<Rightarrow> world \<times> (nat \<times> nat) option" where
  "sys_pipe fails w =
     (if fails then (w\<lparr>calls := calls w @ [SysPipe]\<rparr>, None)
      else let r = fresh (open_fds w); wr = Suc r
           in (w\<lparr>open_fds := wr # r # open_fds w, calls := calls w @ [SysPipe]\<rparr>,
               Some (r, wr)))"

definition sys_close :: "nat \<Rightarrow> world \<Rightarrow> world" where
  "sys_close fd w =
     w\<lparr>open_fds := removeAll fd (open_fds w),
       pipes := filter (\<lambda>e. fst e \<noteq> fd) (pipes w),
       peers := filter (\<lambda>e. fst e \<noteq> fd) (peers w),
       calls := calls w @ [SysClose fd]\<rparr>"

text \<open>
  No process other than the evaluator holds the opposite end of the pipe any more. (The
  evaluator closes its own copy of that end before it writes.)
\<close>

definition peer_gone :: "nat \<Rightarrow> world \<Rightarrow> bool" where
  "peer_gone fd w =
     (case map_of (peers w) fd of
        None \<Rightarrow> False
      | Some None \<Rightarrow> False
      | Some (Some t) \<Rightarrow> t \<le> clock w)"

text \<open>
  \<open>write\<close> to the write end of a pipe. When the read end has been closed by every
  process that held it, a write of one byte or more raises \<open>SIGPIPE\<close> and the
  evaluator is killed. The evaluator writes test inputs only, which are shorter than
  \<open>MAX_INPUT_SIZE\<close> and so fit the buffer of an empty pipe: the call does not block.
\<close>

definition sys_write :: "nat \<Rightarrow> string \<Rightarrow> world \<Rightarrow> world option" where
  "sys_write fd bytes w =
     (if bytes \<noteq> [] \<and> peer_gone fd w then None
      else Some (w\<lparr>calls := calls w @ [SysWrite fd bytes]\<rparr>))"

text \<open>
  \<open>fork\<close>: on success the child, given by what the child branch of the caller does,
  joins the table under a new pid, and what it will have written is what the pipe
  attached to its output holds. (The code reads that pipe only after the child has
  terminated.)
\<close>

definition sys_fork :: "bool \<Rightarrow> proc \<Rightarrow> world \<Rightarrow> world \<times> nat option" where
  "sys_fork fails child w =
     (if fails then (w\<lparr>calls := calls w @ [SysFork]\<rparr>, None)
      else let pid = fresh (map fst (procs w))
           in (w\<lparr>procs := (pid, child) # procs w,
                  pipes := (case out_pipe child of None \<Rightarrow> pipes w
                            | Some fd \<Rightarrow> (fd, piped child) # pipes w),
                  calls := calls w @ [SysFork]\<rparr>,
               Some pid))"

text \<open>
  \<open>read\<close> on a descriptor that is not open fails. On the read end of a pipe it
  returns at once what the pipe holds, up to \<open>count\<close> bytes, if that is one byte or
  more or if \<open>count\<close> is 0. On an empty pipe it waits until every process holding the
  write end has closed it and then returns no bytes: when one of them never does, the
  call never returns.
\<close>

definition sys_read :: "nat \<Rightarrow> nat \<Rightarrow> world \<Rightarrow> (world \<times> string option) option" where
  "sys_read fd count w =
     (if fd \<notin> set (open_fds w) then Some (w\<lparr>calls := calls w @ [SysRead fd count]\<rparr>, None)
      else let bytes = (case map_of (pipes w) fd of None \<Rightarrow> [] | Some held \<Rightarrow> held);
               w1 = w\<lparr>pipes := (fd, drop count bytes) # filter (\<lambda>e. fst e \<noteq> fd) (pipes w),
                      calls := calls w @ [SysRead fd count]\<rparr>
           in if count = 0 \<or> bytes \<noteq> [] then Some (w1, Some (take count bytes))
              else (case map_of (peers w) fd of
                      None \<Rightarrow> Some (w1, Some [])
                    | Some None \<Rightarrow> None
                    | Some (Some t) \<Rightarrow> Some (w1\<lparr>clock := max (clock w) t\<rparr>, Some [])))"

text \<open>
  \<open>kill\<close>: a child that has already terminated is not affected. A running child dies
  at once of \<open>SIGKILL\<close>; \<open>SIGINT\<close> does to it what the program arranged; any other
  signal is not modelled.
\<close>

definition sys_kill :: "nat \<Rightarrow> nat \<Rightarrow> world \<Rightarrow> world" where
  "sys_kill pid sig w =
     (case map_of (procs w) pid of
        None \<Rightarrow> w\<lparr>calls := calls w @ [SysKill pid sig]\<rparr>
      | Some p \<Rightarrow>
          (if \<not> alive (clock w) p then w\<lparr>calls := calls w @ [SysKill pid sig]\<rparr>
           else if sig = SIGKILL
           then w\<lparr>procs := update_proc pid
                     (p\<lparr>dies_at := Some (clock w), dies_with := Signaled SIGKILL\<rparr>) (procs w),
                   calls := calls w @ [SysKill pid sig]\<rparr>
           else if sig = SIGINT
           then (case sigint_effect p of
                   None \<Rightarrow> w\<lparr>calls := calls w @ [SysKill pid sig]\<rparr>
                 | Some (delay, st) \<Rightarrow>
                     w\<lparr>procs := update_proc pid
                          (p\<lparr>dies_at := map_option (\<lambda>d. clock w + d) delay, dies_with := st\<rparr>)
                          (procs w),
                       calls := calls w @ [SysKill pid sig]\<rparr>)
           else w\<lparr>calls := calls w @ [SysKill pid sig]\<rparr>))"

datatype wait_result = WaitError | StillRunning | Reaped wstatus

text \<open>\<open>waitpid(pid, &status, WNOHANG)\<close>: reaps the child if it has terminated.\<close>

definition sys_waitpid_nohang :: "nat \<Rightarrow> world \<Rightarrow> world \<times> wait_result" where
  "sys_waitpid_nohang pid w =
     (case map_of (procs w) pid of
        None \<Rightarrow> (w\<lparr>calls := calls w @ [SysWaitpid pid True]\<rparr>, WaitError)
      | Some p \<Rightarrow>
          (if alive (clock w) p
           then (w\<lparr>calls := calls w @ [SysWaitpid pid True]\<rparr>, StillRunning)
           else (w\<lparr>procs := remove_proc pid (procs w),
                   reaped := reaped w @ [(pid, dies_with p)],
                   calls := calls w @ [SysWaitpid pid True]\<rparr>,
                 Reaped (dies_with p))))"

text \<open>
  \<open>waitpid(pid, &status, 0)\<close>: blocks until the child has terminated, then reaps it.
  On a child that never terminates the call never returns: the result is \<open>None\<close>.
\<close>

definition sys_waitpid_block :: "nat \<Rightarrow> world \<Rightarrow> (world \<times> wait_result) option" where
  "sys_waitpid_block pid w =
     (case map_of (procs w) pid of
        None \<Rightarrow> Some (w\<lparr>calls := calls w @ [SysWaitpid pid False]\<rparr>, WaitError)
      | Some p \<Rightarrow>
          (case dies_at p of
             None \<Rightarrow> None
           | Some t \<Rightarrow>
               Some (w\<lparr>clock := max (clock w) t,
                       procs := remove_proc pid (procs w),
                       reaped := reaped w @ [(pid, dies_with p)],
                       calls := calls w @ [SysWaitpid pid False]\<rparr>,
                     Reaped (dies_with p))))"

text \<open>\<open>usleep\<close>: the clock advances by the time asked for and by the oversleep.\<close>

definition sys_usleep :: "nat \<Rightarrow> nat \<Rightarrow> world \<Rightarrow> world" where
  "sys_usleep us extra w =
     w\<lparr>clock := clock w + us div 1000 + extra, calls := calls w @ [SysUsleep us]\<rparr>"

section \<open>run\_test\_process\<close>

text \<open>
  The child branch of \<open>run_test_process\<close>: it wires the pipe ends onto its standard
  streams, sets the resource limits and calls \<open>execl\<close>. If that fails it prints a
  message on its standard error (the pipe) and exits with
  \<open>EXEC_FAILURE_EXIT_CODE\<close>; otherwise it is the artifact, reading \<open>input\<close>, the
  C string the parent writes into the pipe. The limits are part of the conditions the
  artifact's behaviour is given under.
\<close>

definition test_child :: "run_env \<Rightarrow> string \<Rightarrow> nat \<Rightarrow> nat \<Rightarrow> proc" where
  "test_child env input fd now =
     (if exec_fails env
      then \<lparr>dies_at = Some (now + exec_failure_lag env),
            dies_with = Exited EXEC_FAILURE_EXIT_CODE,
            piped = ''execl failed'', out_pipe = Some fd, sigint_effect = None\<rparr>
      else let b = artifact env input
           in \<lparr>dies_at = map_option (\<lambda>d. now + d) (lifetime b), dies_with = ending b,
                piped = written b, out_pipe = Some fd, sigint_effect = on_sigint b\<rparr>)"

text \<open>
  The child's ends of the two pipes: the clock times from which nobody but the parent
  holds the read end of the input pipe and the write end of the output pipe. After a
  failed \<open>execl\<close> the child holds both until it exits.
\<close>

definition child_ends :: "run_env \<Rightarrow> string \<Rightarrow> nat \<Rightarrow> nat option \<times> nat option" where
  "child_ends env input now =
     (if exec_fails env
      then (Some (now + exec_failure_lag env), Some (now + exec_failure_lag env))
      else let b = artifact env input
           in (map_option (\<lambda>d. now + d) (stdin_open_for b),
               map_option (\<lambda>d. now + d) (stdout_open_for b)))"

definition child_holds :: "nat \<Rightarrow> nat option \<Rightarrow> world \<Rightarrow> world" where
  "child_holds fd until w = w\<lparr>peers := (fd, until) # peers w\<rparr>"

text \<open>
  The caller's buffer after \<open>read\<close> has stored \<open>bytes\<close> at its start and the code has
  written the terminator behind them.
\<close>

definition store_output :: "string \<Rightarrow> string \<Rightarrow> string" where
  "store_output buf bytes = (bytes @ drop (length bytes) buf)[length bytes := NUL]"

text \<open>
  The polling loop. \<open>Inl\<close> is a \<open>return\<close> from inside the loop (return value, buffer,
  state); \<open>Inr\<close> is leaving the loop because the deadline has passed; \<open>None\<close> is a
  \<open>read\<close> that never returns. \<open>k\<close> counts the polls made so far.
\<close>

function wait_loop ::
  "run_env \<Rightarrow> nat \<Rightarrow> nat \<Rightarrow> string \<Rightarrow> 64 word \<Rightarrow> int \<Rightarrow> nat \<Rightarrow> world
     \<Rightarrow> ((int \<times> string \<times> world) + world) option" where
  "wait_loop env pid out_r buf buffer_size start k w =
     (if current_time_ms w - start < TIMEOUT_SECONDS * 1000
      then (case sys_waitpid_nohang pid w of
              (w1, Reaped status) \<Rightarrow>
                (if WIFEXITED status \<and> WEXITSTATUS status = 0
                 then (case sys_read out_r (unat (buffer_size - 1)) w1 of
                         None \<Rightarrow> None
                       | Some (w2, Some bytes) \<Rightarrow>
                           Some (Inl (0, store_output buf bytes, sys_close out_r w2))
                       | Some (w2, None) \<Rightarrow> Some (Inl (0, buf, sys_close out_r w2)))
                 else Some (Inl (- 1, buf, sys_close out_r w1)))
            | (w1, _) \<Rightarrow>
                wait_loop env pid out_r buf buffer_size start (Suc k)
                  (sys_usleep 10000 (oversleep env k) w1))
      else Some (Inr w))"
  by pat_completeness auto
termination
  by (relation "measure (\<lambda>(env, pid, out_r, buf, buffer_size, start, k, w).
                  nat (TIMEOUT_SECONDS * 1000 - (current_time_ms w - start)))")
     (auto simp: sys_waitpid_nohang_def sys_usleep_def current_time_ms_def TIMEOUT_SECONDS_def
           split: option.splits if_splits)

declare wait_loop.simps [simp del]

text \<open>
  The result is the return value, the caller's buffer and the state, and \<open>None\<close> when
  the call does not return: the evaluator is killed by \<open>SIGPIPE\<close> in \<open>write\<close>, or
  \<open>read\<close> or \<open>waitpid\<close> blocks for ever.
\<close>

definition run_test_process ::
  "run_env \<Rightarrow> string \<Rightarrow> string \<Rightarrow> 64 word \<Rightarrow> world \<Rightarrow> (int \<times> string \<times> world) option" where
  "run_test_process env input output_buffer buffer_size w =
     (case sys_pipe (pipe1_fails env) w of
        (w1, None) \<Rightarrow> Some (- 1, output_buffer, w1)
      | (w1, Some (stdin_r, stdin_w)) \<Rightarrow>
     (case sys_pipe (pipe2_fails env) w1 of
        (w2, None) \<Rightarrow> Some (- 1, output_buffer, w2)
      | (w2, Some (stdout_r, stdout_w)) \<Rightarrow>
     (case sys_fork (fork_fails env) (test_child env input stdout_r (clock w2)) w2 of
        (w3, None) \<Rightarrow> Some (- 1, output_buffer, w3)
      | (w3, Some pid) \<Rightarrow>
          (let ends = child_ends env input (clock w3);
               w4 = sys_close stdin_r
                      (child_holds stdin_w (fst ends) (child_holds stdout_r (snd ends) w3));
               w5 = sys_close stdout_w w4
           in case sys_write stdin_w input w5 of
                None \<Rightarrow> None
              | Some w6 \<Rightarrow>
          (let w7 = sys_close stdin_w w6;
               start = current_time_ms w7
           in case wait_loop env pid stdout_r output_buffer buffer_size start 0 w7 of
                None \<Rightarrow> None
              | Some (Inl r) \<Rightarrow> Some r
              | Some (Inr w8) \<Rightarrow>
                  (case sys_waitpid_block pid (sys_kill pid SIGKILL w8) of
                     None \<Rightarrow> None
                   | Some (w9, r) \<Rightarrow> Some (- 1, output_buffer, sys_close stdout_r w9)))))))"

section \<open>check\_robustness\<close>

text \<open>
  The child branch of \<open>check_robustness\<close>: \<open>execl\<close> with the streams the evaluator
  has, and \<open>exit(EXEC_FAILURE_EXIT_CODE)\<close> if that fails.
\<close>

definition probe_child :: "run_env \<Rightarrow> nat \<Rightarrow> proc" where
  "probe_child env now =
     (if exec_fails env
      then \<lparr>dies_at = Some now, dies_with = Exited EXEC_FAILURE_EXIT_CODE,
            piped = [], out_pipe = None, sigint_effect = None\<rparr>
      else let b = artifact env (inherited_stdin env)
           in \<lparr>dies_at = map_option (\<lambda>d. now + d) (lifetime b), dies_with = ending b,
                piped = written b, out_pipe = None, sigint_effect = on_sigint b\<rparr>)"

function grace_loop :: "run_env \<Rightarrow> nat \<Rightarrow> int \<Rightarrow> nat \<Rightarrow> world \<Rightarrow> (real \<times> world) + world" where
  "grace_loop env pid start k w =
     (if current_time_ms w - start < 1000
      then (case sys_waitpid_nohang pid w of
              (w1, Reaped status) \<Rightarrow> Inl (100, w1)
            | (w1, _) \<Rightarrow>
                grace_loop env pid start (Suc k) (sys_usleep 10000 (oversleep env k) w1))
      else Inr w)"
  by pat_completeness auto
termination
  by (relation "measure (\<lambda>(env, pid, start, k, w). nat (1000 - (current_time_ms w - start)))")
     (auto simp: sys_waitpid_nohang_def sys_usleep_def current_time_ms_def
           split: option.splits if_splits)

declare grace_loop.simps [simp del]

definition check_robustness :: "run_env \<Rightarrow> world \<Rightarrow> (real \<times> world) option" where
  "check_robustness env w =
     (case sys_fork (fork_fails env) (probe_child env (clock w)) w of
        (w1, None) \<Rightarrow> Some (0, w1)
      | (w1, Some pid) \<Rightarrow>
          (let w2 = sys_usleep ROBUSTNESS_SIGINT_WAIT_US (settle_oversleep env) w1;
               w3 = sys_kill pid SIGINT w2;
               start = current_time_ms w3
           in case grace_loop env pid start 0 w3 of
                Inl r \<Rightarrow> Some r
              | Inr w4 \<Rightarrow>
                  (case sys_waitpid_block pid (sys_kill pid SIGKILL w4) of
                     None \<Rightarrow> None
                   | Some (w5, r) \<Rightarrow> Some (0, w5))))"

section \<open>C strings and trim\_trailing\_whitespace\<close>

text \<open>
  A \<open>char\<close> array is a list of bytes; the C string it holds is what precedes its first
  \<open>NUL\<close>. \<open>isspace\<close> is that of the "C" locale (the program never sets another).
\<close>

definition cstr :: "string \<Rightarrow> string" where
  "cstr a = takeWhile (\<lambda>c. c \<noteq> NUL) a"

definition strlen :: "string \<Rightarrow> nat" where
  "strlen a = length (cstr a)"

definition isspace :: "char \<Rightarrow> bool" where
  "isspace c = (c = CHR '' '' \<or> c = CHR 0x09 \<or> c = CHR 0x0A \<or> c = CHR 0x0B
                \<or> c = CHR 0x0C \<or> c = CHR 0x0D)"

text \<open>The loop \<open>while (len > 0 && isspace(str[len - 1])) len--\<close>.\<close>

fun trim_len :: "string \<Rightarrow> nat \<Rightarrow> nat" where
  "trim_len str 0 = 0"
| "trim_len str (Suc n) = (if isspace (str ! n) then trim_len str n else Suc n)"

text \<open>
  The argument is the array itself, so the guard against a null pointer has no
  counterpart here.
\<close>

definition trim_trailing_whitespace :: "string \<Rightarrow> string" where
  "trim_trailing_whitespace str = str[trim_len str (strlen str) := NUL]"

text \<open>\<open>strcmp\<close> on the C strings two arrays hold, bytes compared as unsigned.\<close>

fun compare_bytes :: "string \<Rightarrow> string \<Rightarrow> int" where
  "compare_bytes [] [] = 0"
| "compare_bytes [] (y # ys) = - 1"
| "compare_bytes (x # xs) [] = 1"
| "compare_bytes (x # xs) (y # ys) =
     (if x = y then compare_bytes xs ys
      else if of_char x < (of_char y :: nat) then - 1 else 1)"

definition strcmp :: "string \<Rightarrow> string \<Rightarrow> int" where
  "strcmp a b = compare_bytes (cstr a) (cstr b)"

section \<open>Single-precision arithmetic\<close>

text \<open>
  The weights and the sums and quotients formed from them are values of the C type
  \<open>float\<close>, taken to be IEEE 754 binary32 with every operation evaluated in that
  format and rounded to nearest, ties to even: a real number, an infinity or a NaN. The
  sign of a zero is not represented; the code never divides by a zero.

  \<open>round32\<close> rounds a real number to 24 significant bits, with the exponent bounded
  below as for the subnormal numbers and not bounded above; \<open>fl\<close> is the value a
  \<open>float\<close> operation stores when its exact result is that real number, an infinity
  when the rounded result exceeds \<open>FLT_MAX\<close>.
\<close>

datatype cfloat = Finite real | PInf | NInf | NaN

instantiation cfloat :: zero
begin

definition zero_cfloat :: cfloat where
  "zero_cfloat = Finite 0"

instance ..

end

definition FLT_MAX :: real where
  "FLT_MAX = (2 ^ 24 - 1) * 2 ^ 104"

definition ulp_exponent :: "real \<Rightarrow> int" where
  "ulp_exponent x = max (\<lfloor>log 2 \<bar>x\<bar>\<rfloor> - 23) (- 149)"

definition nearest_even :: "real \<Rightarrow> int" where
  "nearest_even y =
     (let f = \<lfloor>y\<rfloor>
      in if y - of_int f < 1 / 2 then f
         else if 1 / 2 < y - of_int f then f + 1
         else if even f then f else f + 1)"

definition round32 :: "real \<Rightarrow> real" where
  "round32 x =
     (if x = 0 then 0
      else of_int (nearest_even (x / 2 powr of_int (ulp_exponent x)))
             * 2 powr of_int (ulp_exponent x))"

definition fl :: "real \<Rightarrow> cfloat" where
  "fl x =
     (let y = round32 x
      in if FLT_MAX < \<bar>y\<bar> then (if 0 < x then PInf else NInf) else Finite y)"

text \<open>Sum, quotient, product, and the comparison \<open>x > 0\<close>.\<close>

fun fadd :: "cfloat \<Rightarrow> cfloat \<Rightarrow> cfloat" where
  "fadd NaN y = NaN"
| "fadd x NaN = NaN"
| "fadd PInf NInf = NaN"
| "fadd NInf PInf = NaN"
| "fadd PInf y = PInf"
| "fadd x PInf = PInf"
| "fadd NInf y = NInf"
| "fadd x NInf = NInf"
| "fadd (Finite a) (Finite b) = fl (a + b)"

fun fdiv :: "cfloat \<Rightarrow> cfloat \<Rightarrow> cfloat" where
  "fdiv NaN y = NaN"
| "fdiv x NaN = NaN"
| "fdiv (Finite a) (Finite b) =
     (if b = 0 then (if a = 0 then NaN else if 0 < a then PInf else NInf)
      else fl (a / b))"
| "fdiv (Finite a) y = Finite 0"
| "fdiv PInf (Finite b) = (if 0 \<le> b then PInf else NInf)"
| "fdiv NInf (Finite b) = (if 0 \<le> b then NInf else PInf)"
| "fdiv x y = NaN"

fun fmul :: "cfloat \<Rightarrow> cfloat \<Rightarrow> cfloat" where
  "fmul NaN y = NaN"
| "fmul x NaN = NaN"
| "fmul (Finite a) (Finite b) = fl (a * b)"
| "fmul (Finite a) PInf = (if a = 0 then NaN else if 0 < a then PInf else NInf)"
| "fmul (Finite a) NInf = (if a = 0 then NaN else if 0 < a then NInf else PInf)"
| "fmul PInf (Finite b) = (if b = 0 then NaN else if 0 < b then PInf else NInf)"
| "fmul NInf (Finite b) = (if b = 0 then NaN else if 0 < b then NInf else PInf)"
| "fmul PInf PInf = PInf"
| "fmul NInf NInf = PInf"
| "fmul PInf NInf = NInf"
| "fmul NInf PInf = NInf"

fun fpos :: "cfloat \<Rightarrow> bool" where
  "fpos (Finite a) = (0 < a)"
| "fpos PInf = True"
| "fpos NInf = False"
| "fpos NaN = False"

section \<open>The test suite and calculate\_dynamic\_passrate\<close>

text \<open>
  The weights, \<open>total_weight\<close>, \<open>passed_weight\<close> and \<open>weighted_score\<close> are
  single-precision values as above. The other \<open>float\<close> values of the program are
  quotients of counts of at most \<open>MAX_TESTS\<close> tests and the constants 0, 25, 75 and
  100; they are modelled by the real numbers they stand for. Character arrays that only
  ever hold a C string are modelled by that string. Console output is left out.
\<close>

record DynamicTestCase =
  input :: string
  expected_output :: string
  description :: string
  category :: string
  weight :: cfloat

record TestSuite =
  tests :: "DynamicTestCase list"
  program_description :: string
  program_type :: string
  difficulty_level :: string
  potential_edge_cases :: "string list"

definition num_tests :: "TestSuite \<Rightarrow> nat" where
  "num_tests suite = length (tests suite)"

definition num_edge_cases :: "TestSuite \<Rightarrow> nat" where
  "num_edge_cases suite = length (potential_edge_cases suite)"

text \<open>\<open>failed_tests\<close> holds the first \<open>num_failed_details\<close> entries of the array.\<close>

record EnhancedEvalMetrics =
  passrate :: real
  memory_score :: real
  robustness_score :: real
  weighted_score :: cfloat
  execution_time_ms :: int
  tests_passed :: int
  tests_failed :: int
  failed_tests :: "string list"

definition num_failed_details :: "EnhancedEvalMetrics \<Rightarrow> nat" where
  "num_failed_details m = length (failed_tests m)"

definition zero_metrics :: EnhancedEvalMetrics where
  "zero_metrics =
     \<lparr>passrate = 0, memory_score = 0, robustness_score = 0, weighted_score = 0,
      execution_time_ms = 0, tests_passed = 0, tests_failed = 0, failed_tests = []\<rparr>"

fun decimal :: "nat \<Rightarrow> string" where
  "decimal n =
     (if n < 10 then [char_of (48 + n)]
      else decimal (n div 10) @ [char_of (48 + n mod 10)])"

declare decimal.simps [simp del]

text \<open>\<open>snprintf\<close> into an array of \<open>n\<close> bytes keeps \<open>n - 1\<close> of them.\<close>

definition snprintf :: "nat \<Rightarrow> string \<Rightarrow> string" where
  "snprintf n formatted = take (n - 1) formatted"

definition record_failure :: "string \<Rightarrow> EnhancedEvalMetrics \<Rightarrow> EnhancedEvalMetrics" where
  "record_failure detail m =
     (if num_failed_details m < MAX_TESTS
      then m\<lparr>failed_tests := failed_tests m @ [snprintf 512 detail]\<rparr>
      else m)"

text \<open>
  One iteration of the loop over the tests: the state is the metrics, \<open>total_weight\<close>,
  \<open>passed_weight\<close> and the operating system; \<open>envs i\<close> gives the conditions of run
  \<open>i\<close>. \<open>output_buf\<close> starts zeroed.
\<close>

definition run_one_test ::
  "(nat \<Rightarrow> run_env) \<Rightarrow> nat \<Rightarrow> DynamicTestCase
     \<Rightarrow> EnhancedEvalMetrics \<times> cfloat \<times> cfloat \<times> world
     \<Rightarrow> (EnhancedEvalMetrics \<times> cfloat \<times> cfloat \<times> world) option" where
  "run_one_test envs i t s =
     (case s of (m, total_weight, passed_weight, w) \<Rightarrow>
       (case run_test_process (envs i) (input t) (replicate MAX_OUTPUT_SIZE NUL)
               (of_nat MAX_OUTPUT_SIZE) w of
          None \<Rightarrow> None
        | Some (r, output_buf, w') \<Rightarrow>
            (if r = 0
             then (let trimmed = trim_trailing_whitespace output_buf
                   in if strcmp trimmed (expected_output t) = 0
                      then Some (m\<lparr>tests_passed := tests_passed m + 1\<rparr>,
                                 fadd total_weight (weight t),
                                 fadd passed_weight (weight t), w')
                      else Some (record_failure
                                   (''Test '' @ decimal (i + 1) @ '' ('' @ description t
                                    @ ''): Expected '' @ [CHR 0x27] @ cstr (expected_output t)
                                    @ [CHR 0x27] @ '', Got '' @ [CHR 0x27] @ cstr trimmed
                                    @ [CHR 0x27])
                                   (m\<lparr>tests_failed := tests_failed m + 1\<rparr>),
                                 fadd total_weight (weight t), passed_weight, w'))
             else Some (record_failure
                          (''Test '' @ decimal (i + 1) @ '' ('' @ description t
                           @ ''): Execution timeout or error'')
                          (m\<lparr>tests_failed := tests_failed m + 1\<rparr>),
                        fadd total_weight (weight t), passed_weight, w'))))"

fun run_tests ::
  "(nat \<Rightarrow> run_env) \<Rightarrow> nat \<Rightarrow> DynamicTestCase list
     \<Rightarrow> EnhancedEvalMetrics \<times> cfloat \<times> cfloat \<times> world
     \<Rightarrow> (EnhancedEvalMetrics \<times> cfloat \<times> cfloat \<times> world) option" where
  "run_tests envs i [] s = Some s"
| "run_tests envs i (t # ts) s =
     (case run_one_test envs i t s of
        None \<Rightarrow> None
      | Some s' \<Rightarrow> run_tests envs (Suc i) ts s')"

text \<open>
  The result is the return value, the metrics as left behind, and the state, and
  \<open>None\<close> when a call of \<open>run_test_process\<close> does not return.
\<close>

definition calculate_dynamic_passrate ::
  "(nat \<Rightarrow> run_env) \<Rightarrow> TestSuite \<Rightarrow> EnhancedEvalMetrics \<Rightarrow> world
     \<Rightarrow> (real \<times> EnhancedEvalMetrics \<times> world) option" where
  "calculate_dynamic_passrate envs suite metrics w =
     (case run_tests envs 0 (tests suite)
             (metrics\<lparr>tests_passed := 0, tests_failed := 0, failed_tests := []\<rparr>, 0, 0, w) of
        None \<Rightarrow> None
      | Some (m, total_weight, passed_weight, w') \<Rightarrow>
          (let simple_passrate =
                 (if num_tests suite > 0
                  then real_of_int (tests_passed m) / real (num_tests suite) * 100 else 0)
           in Some (simple_passrate,
                    m\<lparr>weighted_score :=
                        (if fpos total_weight
                         then fmul (fdiv passed_weight total_weight) (Finite 100) else 0)\<rparr>,
                    w')))"

section \<open>analyze\_memory\<close>

definition VALGRIND_LOG_PATH :: string where
  "VALGRIND_LOG_PATH = ''/tmp/valgrind_log.txt''"

definition RESULTS_JSON_PATH :: string where
  "RESULTS_JSON_PATH = ''/tmp/eval_results.json''"

text \<open>
  \<open>fgets(line, n + 1, f)\<close> called until end of file: each call takes at most \<open>n\<close>
  bytes and stops behind a newline. \<open>acc\<close> is the line being read, reversed.
\<close>

fun fgets_lines :: "nat \<Rightarrow> string \<Rightarrow> string \<Rightarrow> string list" where
  "fgets_lines n acc [] = (if acc = [] then [] else [rev acc])"
| "fgets_lines n acc (c # cs) =
     (if c = CHR 0x0A \<or> Suc (length acc) = n then rev (c # acc) # fgets_lines n [] cs
      else fgets_lines n (c # acc) cs)"

fun starts_with :: "string \<Rightarrow> string \<Rightarrow> bool" where
  "starts_with s [] = True"
| "starts_with [] (p # ps) = False"
| "starts_with (c # cs) (p # ps) = (c = p \<and> starts_with cs ps)"

text \<open>\<open>strstr(haystack, needle) != NULL\<close>\<close>

fun strstr :: "string \<Rightarrow> string \<Rightarrow> bool" where
  "strstr [] needle = (needle = [])"
| "strstr (c # cs) needle = (starts_with (c # cs) needle \<or> strstr cs needle)"

definition isdigit :: "char \<Rightarrow> bool" where
  "isdigit c = (48 \<le> (of_char c :: nat) \<and> (of_char c :: nat) \<le> 57)"

text \<open>A literal of a \<open>scanf\<close> format: the input must start with it.\<close>

definition scan_literal :: "string \<Rightarrow> string \<Rightarrow> string option" where
  "scan_literal lit s = (if starts_with s lit then Some (drop (length lit) s) else None)"

text \<open>
  The conversion \<open>%d\<close>: white space is skipped, then an optional sign and at least one
  digit are taken. The value is what \<open>strtol\<close> gives, kept within \<open>long\<close> (64 bits),
  and stored into an \<open>int\<close> (32 bits), as the C library of the platform does.
\<close>

definition store_int :: "int \<Rightarrow> int" where
  "store_int v = sint (word_of_int (max (- (2 ^ 63)) (min (2 ^ 63 - 1) v)) :: 32 word)"

definition scan_int :: "string \<Rightarrow> (int \<times> string) option" where
  "scan_int s =
     (let s1 = dropWhile isspace s;
          neg = (s1 \<noteq> [] \<and> hd s1 = CHR ''-'');
          s2 = (if s1 \<noteq> [] \<and> (hd s1 = CHR ''-'' \<or> hd s1 = CHR ''+'') then tl s1 else s1);
          digits = takeWhile isdigit s2;
          v = fold (\<lambda>c a. a * 10 + (int (of_char c) - 48)) digits 0
      in if digits = [] then None
         else Some (store_int (if neg then - v else v), dropWhile isdigit s2))"

text \<open>
  \<open>sscanf(line, "==%*d== definitely lost: %d bytes in %*d blocks", &definitely_lost)\<close>:
  the value of \<open>definitely_lost\<close> afterwards, \<open>old\<close> when the input stops matching
  before the assignment. What follows the assigned number cannot change it.
\<close>

definition sscanf_definitely_lost :: "string \<Rightarrow> int \<Rightarrow> int" where
  "sscanf_definitely_lost line old =
     (case scan_literal ''=='' line of None \<Rightarrow> old | Some s1 \<Rightarrow>
     (case scan_int s1 of None \<Rightarrow> old | Some (skipped, s2) \<Rightarrow>
     (case scan_literal ''=='' s2 of None \<Rightarrow> old | Some s3 \<Rightarrow>
     (case scan_literal ''definitely'' (dropWhile isspace s3) of None \<Rightarrow> old | Some s4 \<Rightarrow>
     (case scan_literal ''lost:'' (dropWhile isspace s4) of None \<Rightarrow> old | Some s5 \<Rightarrow>
     (case scan_int (dropWhile isspace s5) of None \<Rightarrow> old | Some (v, s6) \<Rightarrow> v))))))"

text \<open>
  The loop over the log: the first line that contains the marker is scanned and ends
  the loop; \<open>definitely_lost\<close> starts at 0.
\<close>

definition scan_log :: "string \<Rightarrow> int" where
  "scan_log content =
     (case find (\<lambda>line. strstr (cstr line) ''definitely lost:'') (fgets_lines 511 [] content) of
        None \<Rightarrow> 0
      | Some line \<Rightarrow> sscanf_definitely_lost (cstr line) 0)"

text \<open>The thresholds at the end of \<open>analyze_memory\<close>.\<close>

definition leak_score :: "int \<Rightarrow> real" where
  "leak_score definitely_lost =
     (if definitely_lost = 0 then 100
      else if definitely_lost < 100 then 75
      else if definitely_lost < 1024 then 25
      else 0)"

text \<open>
  The values \<open>write_enhanced_results_to_json\<close> prints, in the order it prints them;
  the text of the file is determined by them.
\<close>

record report =
  r_program_description :: string
  r_program_type :: string
  r_difficulty_level :: string
  r_passrate :: real
  r_weighted_score :: cfloat
  r_memory_score :: real
  r_robustness_score :: real
  r_tests_passed :: int
  r_tests_failed :: int
  r_total_tests :: nat
  r_execution_time_ms :: int
  r_failed_test_details :: "string list"
  r_potential_edge_cases :: "string list"

text \<open>
  The evaluator's globals and the files it touches: the report and the checker's log
  (\<open>None\<close> when the file is absent), and the scratch directories that exist.
\<close>

record machine =
  os :: world
  executable_path :: string
  temp_dir_path :: string
  test_suite :: TestSuite
  results_json :: "report option"
  valgrind_log :: "string option"
  scratch_dirs :: "string list"

text \<open>
  What the outside decides during one evaluation: the arguments; what loading the test
  definitions yields (\<open>None\<close> when \<open>load_test_cases_from_json\<close> returns -1); the
  directory \<open>mkdtemp\<close> creates, if it does; the wait status \<open>system\<close> returns for the
  compiler command (\<open>None\<close> for -1); the conditions of each test run; what the memory
  checker's command leaves as its log, with \<open>None\<close> when that command never returns and
  \<open>Some None\<close> when the log cannot be opened afterwards; the conditions of the probe;
  and whether the report file can be opened for writing.
\<close>

record eval_env =
  argc :: int
  source_filename :: string
  load_outcome :: "TestSuite option"
  mkdtemp_outcome :: "string option"
  compiler_outcome :: "string \<Rightarrow> wstatus option"
  test_env :: "nat \<Rightarrow> run_env"
  checker_outcome :: "string \<Rightarrow> string option option"
  probe_env :: run_env
  results_fopen_fails :: bool

text \<open>The command line \<open>analyze_memory\<close> builds from the first test's input.\<close>

definition valgrind_command :: "machine \<Rightarrow> string" where
  "valgrind_command st =
     snprintf 1024
       (''echo '' @ [CHR 0x22] @ input (hd (tests (test_suite st))) @ [CHR 0x22]
        @ '' | valgrind --tool=memcheck --leak-check=full --log-file=''
        @ VALGRIND_LOG_PATH @ '' '' @ executable_path st)"

definition analyze_memory :: "eval_env \<Rightarrow> machine \<Rightarrow> (real \<times> machine) option" where
  "analyze_memory env st =
     (if num_tests (test_suite st) = 0 then Some (100, st)
      else case checker_outcome env (valgrind_command st) of
                None \<Rightarrow> None
              | Some log_file \<Rightarrow>
                  (let st1 = st\<lparr>valgrind_log := log_file\<rparr>
                   in case valgrind_log st1 of
                        None \<Rightarrow> Some (0, st1)
                      | Some content \<Rightarrow>
                          Some (leak_score (scan_log content), st1\<lparr>valgrind_log := None\<rparr>)))"

section \<open>The report and main\<close>

definition write_enhanced_results_to_json ::
  "eval_env \<Rightarrow> EnhancedEvalMetrics \<Rightarrow> machine \<Rightarrow> machine" where
  "write_enhanced_results_to_json env metrics st =
     (if results_fopen_fails env then st
      else st\<lparr>results_json := Some
             \<lparr>r_program_description = program_description (test_suite st),
              r_program_type = program_type (test_suite st),
              r_difficulty_level = difficulty_level (test_suite st),
              r_passrate = passrate metrics,
              r_weighted_score = weighted_score metrics,
              r_memory_score = memory_score metrics,
              r_robustness_score = robustness_score metrics,
              r_tests_passed = tests_passed metrics,
              r_tests_failed = tests_failed metrics,
              r_total_tests = num_tests (test_suite st),
              r_execution_time_ms = execution_time_ms metrics,
              r_failed_test_details = failed_tests metrics,
              r_potential_edge_cases = potential_edge_cases (test_suite st)\<rparr>\<rparr>)"

text \<open>
  \<open>compile_source\<close>: the result is the return value and the state with
  \<open>executable_path\<close> set.
\<close>

definition gcc_command :: "string \<Rightarrow> string \<Rightarrow> string" where
  "gcc_command executable source =
     snprintf 1024 (''gcc -o '' @ executable @ '' '' @ source @ '' -lm'')"

definition compile_source :: "eval_env \<Rightarrow> string \<Rightarrow> machine \<Rightarrow> int \<times> machine" where
  "compile_source env source st =
     (let st1 = st\<lparr>executable_path := snprintf 256 (temp_dir_path st @ ''/user_program'')\<rparr>
      in case compiler_outcome env (gcc_command (executable_path st1) source) of
           None \<Rightarrow> (- 1, st1)
         | Some ret \<Rightarrow> (if WIFEXITED ret \<and> WEXITSTATUS ret = 0 then 0 else - 1, st1))"

text \<open>
  \<open>main\<close>: the result is the exit code and the state when \<open>main\<close> returns, \<open>None\<close>
  when it never returns.
\<close>

definition main :: "eval_env \<Rightarrow> machine \<Rightarrow> (int \<times> machine) option" where
  "main env st =
     (if argc env < 3 then Some (1, st)
      else case load_outcome env of
             None \<Rightarrow> Some (1, st)
           | Some suite \<Rightarrow>
      (let st1 = st\<lparr>test_suite := suite\<rparr>
       in case mkdtemp_outcome env of
            None \<Rightarrow> Some (1, st1)
          | Some dir \<Rightarrow>
      (let st2 = st1\<lparr>temp_dir_path := snprintf 256 dir, scratch_dirs := dir # scratch_dirs st1\<rparr>;
           start_time = current_time_ms (os st2)
       in case compile_source env (source_filename env) st2 of (c, st3) \<Rightarrow>
          if c \<noteq> 0
          then Some (1, write_enhanced_results_to_json env zero_metrics st3)
          else
      (case calculate_dynamic_passrate (test_env env) (test_suite st3) zero_metrics (os st3) of
         None \<Rightarrow> None
       | Some (rate, m1, w1) \<Rightarrow>
      (let m2 = m1\<lparr>passrate := rate\<rparr>
       in case analyze_memory env (st3\<lparr>os := w1\<rparr>) of
            None \<Rightarrow> None
          | Some (mem, st4) \<Rightarrow>
      (let m3 = m2\<lparr>memory_score := mem\<rparr>
       in case check_robustness (probe_env env) (os st4) of
            None \<Rightarrow> None
          | Some (rob, w2) \<Rightarrow>
      (let m4 = m3\<lparr>robustness_score := rob\<rparr>;
           st5 = st4\<lparr>os := w2\<rparr>;
           m5 = m4\<lparr>execution_time_ms := current_time_ms (os st5) - start_time\<rparr>
       in Some (0, write_enhanced_results_to_json env m5 st5))))))))"

text \<open>The handler registered with \<open>atexit\<close>.\<close>

definition cleanup :: "machine \<Rightarrow> machine" where
  "cleanup st =
     (let st1 = (if strlen (temp_dir_path st) > 0
                 then st\<lparr>scratch_dirs := removeAll (temp_dir_path st) (scratch_dirs st)\<rparr>
                 else st)
      in st1\<lparr>results_json := None, valgrind_log := None\<rparr>)"

text \<open>
  The whole process: \<open>main\<close>, then the exit handler if \<open>main\<close> got as far as
  registering it.
\<close>

definition evaluator :: "eval_env \<Rightarrow> machine \<Rightarrow> (int \<times> machine) option" where
  "evaluator env st =
     (case main env st of
        None \<Rightarrow> None
      | Some (code, st') \<Rightarrow> Some (code, if argc env < 3 then st' else cleanup st'))"

section \<open>Notions the statements below use\<close>

text \<open>
  The clock at poll number \<open>k\<close> of a polling loop entered at clock \<open>t0\<close>: each round
  sleeps 10 ms and whatever the scheduler adds.
\<close>

fun poll_time :: "run_env \<Rightarrow> nat \<Rightarrow> nat \<Rightarrow> nat" where
  "poll_time env t0 0 = t0"
| "poll_time env t0 (Suc k) = poll_time env t0 k + 10 + oversleep env k"

text \<open>
  A poll of a loop entered at \<open>t0\<close> with a window of \<open>window\<close> ms finds the process
  terminated: it is made while the window is open, and the process is dead by then.
\<close>

definition seen_by_poll :: "run_env \<Rightarrow> nat \<Rightarrow> nat \<Rightarrow> proc \<Rightarrow> nat \<Rightarrow> bool" where
  "seen_by_poll env t0 window p k =
     (poll_time env t0 k < t0 + window \<and> \<not> alive (poll_time env t0 k) p)"

text \<open>
  What \<open>run_test_process\<close> creates when it is entered in state \<open>w\<close> and both pipes
  and the fork succeed: the read end of the output pipe, the pid of the child, and
  the child.
\<close>

definition stdout_fd :: "world \<Rightarrow> nat" where
  "stdout_fd w = fresh (Suc (fresh (open_fds w)) # fresh (open_fds w) # open_fds w)"

definition child_pid :: "world \<Rightarrow> nat" where
  "child_pid w = fresh (map fst (procs w))"

definition spawned :: "run_env \<Rightarrow> string \<Rightarrow> world \<Rightarrow> proc" where
  "spawned env inp w = test_child env inp (stdout_fd w) (clock w)"

text \<open>
  When the parent writes the input, no process holds the read end of the input pipe
  any more; and some process holds the write end of the output pipe for ever.
\<close>

definition reader_gone :: "run_env \<Rightarrow> string \<Rightarrow> bool" where
  "reader_gone env inp =
     (if exec_fails env then exec_failure_lag env = 0
      else stdin_open_for (artifact env inp) = Some 0)"

definition writer_stays :: "run_env \<Rightarrow> string \<Rightarrow> bool" where
  "writer_stays env inp = (\<not> exec_fails env \<and> stdout_open_for (artifact env inp) = None)"

text \<open>
  What a call of \<open>run_test_process\<close> gave: the value returned, the buffer, and the
  children reaped so far with their status.
\<close>

definition run_summary ::
  "(int \<times> string \<times> world) option \<Rightarrow> (int \<times> string \<times> (nat \<times> wstatus) list) option" where
  "run_summary res = map_option (\<lambda>(r, b, w). (r, b, reaped w)) res"

text \<open>
  For \<open>check_robustness\<close> entered in state \<open>w\<close>: the clock when the interrupt is sent
  and the polling starts, and the child as the interrupt leaves it.
\<close>

definition probe_start :: "run_env \<Rightarrow> world \<Rightarrow> nat" where
  "probe_start env w = clock w + ROBUSTNESS_SIGINT_WAIT_US div 1000 + settle_oversleep env"

definition probed :: "run_env \<Rightarrow> world \<Rightarrow> proc" where
  "probed env w =
     (let p = probe_child env (clock w)
      in if \<not> alive (probe_start env w) p then p
         else case sigint_effect p of
                None \<Rightarrow> p
              | Some (delay, st) \<Rightarrow>
                  p\<lparr>dies_at := map_option (\<lambda>d. probe_start env w + d) delay,
                    dies_with := st\<rparr>)"

text \<open>The state in which the polling loop of the probe leaves off, by either exit.\<close>

definition final :: "(real \<times> world) + world \<Rightarrow> world" where
  "final res = (case res of Inl (r, w') \<Rightarrow> w' | Inr w' \<Rightarrow> w')"

text \<open>The process terminates at some time from \<open>t0\<close> on and less than \<open>window\<close> ms later.\<close>

definition dies_within :: "proc \<Rightarrow> nat \<Rightarrow> nat \<Rightarrow> bool" where
  "dies_within p t0 window =
     (case dies_at p of None \<Rightarrow> False | Some t \<Rightarrow> t0 \<le> t \<and> t < t0 + window)"

text \<open>
  A string without its longest suffix of characters of a given class, and the class the
  specification names for the trimming: space, tab and newline.
\<close>

definition strip_trailing :: "(char \<Rightarrow> bool) \<Rightarrow> string \<Rightarrow> string" where
  "strip_trailing cls s = rev (dropWhile cls (rev s))"

definition space_tab_newline :: "char \<Rightarrow> bool" where
  "space_tab_newline c = (c = CHR '' '' \<or> c = CHR 0x09 \<or> c = CHR 0x0A)"

text \<open>
  The verdicts of the tests in suite order, each run in the state its predecessor
  left: a test passes when its run returns 0 and the captured C string, without its
  trailing white space, is the expected C string. \<open>i\<close> is the number of the first test.
\<close>

fun verdicts :: "(nat \<Rightarrow> run_env) \<Rightarrow> nat \<Rightarrow> DynamicTestCase list \<Rightarrow> world \<Rightarrow> bool list" where
  "verdicts envs i [] w = []"
| "verdicts envs i (t # ts) w =
     (case run_test_process (envs i) (input t) (replicate MAX_OUTPUT_SIZE NUL)
             (of_nat MAX_OUTPUT_SIZE) w of
        None \<Rightarrow> []
      | Some (r, b, w') \<Rightarrow>
          (r = 0 \<and> strip_trailing isspace (cstr b) = cstr (expected_output t))
          # verdicts envs (Suc i) ts w')"

text \<open>Every test of the suite is run, each in the state its predecessor left.\<close>

fun all_return :: "(nat \<Rightarrow> run_env) \<Rightarrow> nat \<Rightarrow> DynamicTestCase list \<Rightarrow> world \<Rightarrow> bool" where
  "all_return envs i [] w = True"
| "all_return envs i (t # ts) w =
     (case run_test_process (envs i) (input t) (replicate MAX_OUTPUT_SIZE NUL)
             (of_nat MAX_OUTPUT_SIZE) w of
        None \<Rightarrow> False
      | Some (r, b, w') \<Rightarrow> all_return envs (Suc i) ts w')"

text \<open>
  The number of tests that passed; the weights of the tests that passed, in suite
  order; and the single-precision sum of a list of weights, taken from the left
  starting at zero.
\<close>

definition passed_count :: "bool list \<Rightarrow> nat" where
  "passed_count vs = length (filter (\<lambda>v. v) vs)"

definition passed_weights :: "DynamicTestCase list \<Rightarrow> bool list \<Rightarrow> cfloat list" where
  "passed_weights ts vs = map (\<lambda>e. weight (fst e)) (filter snd (zip ts vs))"

definition float_sum :: "cfloat list \<Rightarrow> cfloat" where
  "float_sum xs = foldl fadd 0 xs"

text \<open>
  The weighted rate as the specification words it, over the real numbers: the sum of
  the weights of the tests that passed over the sum of all weights, times 100, and 0
  when the sum of all weights is zero.
\<close>

definition stated_weighted_rate :: "real list \<Rightarrow> bool list \<Rightarrow> real" where
  "stated_weighted_rate ws vs =
     (if sum_list ws = 0 then 0
      else sum_list (map fst (filter snd (zip ws vs))) / sum_list ws * 100)"

text \<open>The weighted score a call of \<open>calculate_dynamic_passrate\<close> left in the metrics.\<close>

definition weighted_result ::
  "(real \<times> EnhancedEvalMetrics \<times> world) option \<Rightarrow> cfloat option" where
  "weighted_result res = map_option (\<lambda>(rate, m, w). weighted_score m) res"

text \<open>
  The compiler, run on the source file for the artifact in scratch directory \<open>dir\<close>,
  exits with status 0.
\<close>

definition compiles :: "eval_env \<Rightarrow> string \<Rightarrow> bool" where
  "compiles env dir =
     (compiler_outcome env
        (gcc_command (snprintf 256 (snprintf 256 dir @ ''/user_program''))
           (source_filename env))
      = Some (Exited 0))"

text \<open>The report carries zero for all four scores and both counts.\<close>

definition all_zero :: "report \<Rightarrow> bool" where
  "all_zero rep =
     (r_passrate rep = 0 \<and> r_weighted_score rep = 0 \<and> r_memory_score rep = 0 \<and>
      r_robustness_score rep = 0 \<and> r_tests_passed rep = 0 \<and> r_tests_failed rep = 0)"

section \<open>Concrete runs used to exercise the theorems\<close>

definition boot :: world where
  "boot = \<lparr>clock = 0, open_fds = [0, 1, 2], procs = [], pipes = [], peers = [],
           reaped = [], calls = []\<rparr>"

definition sum_test :: DynamicTestCase where
  "sum_test =
     \<lparr>input = ''2 3'', expected_output = ''5'', description = ''adds'',
      category = ''normal'', weight = Finite 1\<rparr>"

definition sum_suite :: TestSuite where
  "sum_suite =
     \<lparr>tests = [sum_test], program_description = ''sum of two numbers'',
      program_type = ''cli'', difficulty_level = ''easy'', potential_edge_cases = []\<rparr>"

definition idle :: machine where
  "idle =
     \<lparr>os = boot, executable_path = ''/tmp/safe_eval_a1b2c3/user_program'',
      temp_dir_path = ''/tmp/safe_eval_a1b2c3'', test_suite = sum_suite,
      results_json = None, valgrind_log = None, scratch_dirs = [''/tmp/safe_eval_a1b2c3'']\<rparr>"

text \<open>
  An artifact that reads its input, prints the answer and a newline and exits with 0
  within a millisecond.
\<close>

definition prompt_artifact :: "string \<Rightarrow> behaviour" where
  "prompt_artifact stdin =
     \<lparr>lifetime = Some 1, ending = Exited 0, written = ''5'' @ [CHR 0x0A],
      on_sigint = Some (Some 0, Signaled SIGINT),
      stdin_open_for = Some 1, stdout_open_for = Some 1\<rparr>"

definition calm :: run_env where
  "calm =
     \<lparr>pipe1_fails = False, pipe2_fails = False, fork_fails = False, exec_fails = False,
      exec_failure_lag = 0, artifact = prompt_artifact, oversleep = (\<lambda>k. 0),
      settle_oversleep = 0, inherited_stdin = []\<rparr>"

text \<open>The same conditions for every test run.\<close>

definition always_calm :: "nat \<Rightarrow> run_env" where
  "always_calm i = calm"

text \<open>
  An artifact that exits with 0 after 4995 ms, and one that exits 995 ms after an
  interrupt; a platform on which \<open>execl\<close> fails, the child being gone before the
  parent writes the input; one on which \<open>fork\<close> fails.
\<close>

definition late_artifact :: "string \<Rightarrow> behaviour" where
  "late_artifact stdin =
     \<lparr>lifetime = Some 4995, ending = Exited 0, written = ''5'' @ [CHR 0x0A],
      on_sigint = Some (Some 995, Exited 0),
      stdin_open_for = Some 4995, stdout_open_for = Some 4995\<rparr>"

definition late :: run_env where
  "late = calm\<lparr>artifact := late_artifact\<rparr>"

definition no_exec :: run_env where
  "no_exec = calm\<lparr>exec_fails := True\<rparr>"

definition no_fork :: run_env where
  "no_fork = calm\<lparr>fork_fails := True\<rparr>"

text \<open>An artifact that never terminates and ignores the interrupt.\<close>

definition hung_artifact :: "string \<Rightarrow> behaviour" where
  "hung_artifact stdin =
     \<lparr>lifetime = None, ending = Exited 0, written = [], on_sigint = None,
      stdin_open_for = None, stdout_open_for = None\<rparr>"

definition stuck :: run_env where
  "stuck = calm\<lparr>artifact := hung_artifact\<rparr>"

text \<open>
  An artifact that starts a process in the background, which inherits its standard
  streams and stays, prints nothing and exits with 0 after a millisecond.
\<close>

definition daemon_artifact :: "string \<Rightarrow> behaviour" where
  "daemon_artifact stdin =
     \<lparr>lifetime = Some 1, ending = Exited 0, written = [], on_sigint = None,
      stdin_open_for = None, stdout_open_for = None\<rparr>"

definition orphaning :: run_env where
  "orphaning = calm\<lparr>artifact := daemon_artifact\<rparr>"

text \<open>Three tests of weights 1, 2 and 1; the artifact's answer is wrong for the second.\<close>

definition weighted_suite :: TestSuite where
  "weighted_suite =
     \<lparr>tests =
        [\<lparr>input = ''2 3'', expected_output = ''5'', description = ''first'',
          category = ''normal'', weight = Finite 1\<rparr>,
         \<lparr>input = ''3 4'', expected_output = ''7'', description = ''second'',
          category = ''edge'', weight = Finite 2\<rparr>,
         \<lparr>input = ''1 4'', expected_output = ''5'', description = ''third'',
          category = ''normal'', weight = Finite 1\<rparr>],
      program_description = ''sum of two numbers'', program_type = ''cli'',
      difficulty_level = ''easy'', potential_edge_cases = []\<rparr>"

text \<open>
  Two tests of weights 1 and 2, the artifact's answer being wrong for the second; and
  two tests of weight \<open>2\<^sup>1\<^sup>2\<^sup>7\<close> each, which is a single-precision number.
\<close>

definition thirds_suite :: TestSuite where
  "thirds_suite =
     \<lparr>tests =
        [\<lparr>input = ''2 3'', expected_output = ''5'', description = ''first'',
          category = ''normal'', weight = Finite 1\<rparr>,
         \<lparr>input = ''3 4'', expected_output = ''7'', description = ''second'',
          category = ''edge'', weight = Finite 2\<rparr>],
      program_description = ''sum of two numbers'', program_type = ''cli'',
      difficulty_level = ''easy'', potential_edge_cases = []\<rparr>"

definition heavy_suite :: TestSuite where
  "heavy_suite =
     \<lparr>tests =
        [\<lparr>input = ''2 3'', expected_output = ''5'', description = ''first'',
          category = ''normal'', weight = Finite (2 ^ 127)\<rparr>,
         \<lparr>input = ''1 4'', expected_output = ''5'', description = ''second'',
          category = ''normal'', weight = Finite (2 ^ 127)\<rparr>],
      program_description = ''sum of two numbers'', program_type = ''cli'',
      difficulty_level = ''easy'', potential_edge_cases = []\<rparr>"

text \<open>A suite of one test, of weight -1.\<close>

definition owing_suite :: TestSuite where
  "owing_suite =
     \<lparr>tests =
        [\<lparr>input = ''2 3'', expected_output = ''5'', description = ''adds'',
          category = ''normal'', weight = Finite (- 1)\<rparr>],
      program_description = ''sum of two numbers'', program_type = ''cli'',
      difficulty_level = ''easy'', potential_edge_cases = []\<rparr>"

text \<open>
  Logs of the memory checker: one reporting no leak, one reporting 1500 bytes lost as
  the checker prints the number, with its digits grouped, and one reporting 1500 bytes
  lost with the digits not grouped.
\<close>

definition clean_log :: string where
  "clean_log =
     ''==1234== HEAP SUMMARY:'' @ [CHR 0x0A] @
     ''==1234==    definitely lost: 0 bytes in 0 blocks'' @ [CHR 0x0A]"

definition grouped_log :: string where
  "grouped_log =
     ''==1234== LEAK SUMMARY:'' @ [CHR 0x0A] @
     ''==1234==    definitely lost: 1,500 bytes in 2 blocks'' @ [CHR 0x0A]"

definition plain_log :: string where
  "plain_log =
     ''==1234== LEAK SUMMARY:'' @ [CHR 0x0A] @
     ''==1234==    definitely lost: 1500 bytes in 2 blocks'' @ [CHR 0x0A]"

definition audit_env :: "string option option \<Rightarrow> eval_env" where
  "audit_env outcome =
     \<lparr>argc = 3, source_filename = ''prog.c'', load_outcome = Some sum_suite,
      mkdtemp_outcome = Some ''/tmp/safe_eval_a1b2c3'',
      compiler_outcome = (\<lambda>command. Some (Exited 0)),
      test_env = (\<lambda>i. calm), checker_outcome = (\<lambda>command. outcome),
      probe_env = calm, results_fopen_fails = False\<rparr>"

text \<open>A whole evaluation that goes well, and one whose compiler exits with status 1.\<close>

definition smooth :: eval_env where
  "smooth = audit_env (Some (Some clean_log))"

definition no_build :: eval_env where
  "no_build = smooth\<lparr>compiler_outcome := (\<lambda>command. Some (Exited 1))\<rparr>"

section \<open>The memory audit\<close>

lemma starts_with_prefix: "starts_with s p \<longleftrightarrow> prefix p s"
  by (induction s p rule: starts_with.induct) auto

lemma strstr_sublist: "strstr h n \<longleftrightarrow> sublist n h"
proof (induction h)
  case Nil
  then show ?case by simp
next
  case (Cons c cs)
  then show ?case
    by (simp add: starts_with_prefix sublist_Cons_right)
qed

lemma fgets_lines_sublist:
  "line \<in> set (fgets_lines n acc s) \<Longrightarrow> sublist line (rev acc @ s)"
proof (induction s arbitrary: acc)
  case Nil
  then show ?case by (auto split: if_splits)
next
  case (Cons c cs)
  show ?case
  proof (cases "c = CHR 0x0A \<or> Suc (length acc) = n")
    case True
    with Cons.prems have "line = rev (c # acc) \<or> line \<in> set (fgets_lines n [] cs)"
      by auto
    then show ?thesis
    proof
      assume "line = rev (c # acc)"
      then have "prefix line (rev acc @ c # cs)" by (simp add: prefix_def)
      then show ?thesis by (rule prefix_imp_sublist)
    next
      assume "line \<in> set (fgets_lines n [] cs)"
      then have "sublist line cs" using Cons.IH [of "[]"] by simp
      moreover have "sublist cs (rev acc @ c # cs)"
        by (rule suffix_imp_sublist) (simp add: suffix_def)
      ultimately show ?thesis by (rule sublist_order.order_trans)
    qed
  next
    case False
    with Cons.prems have "line \<in> set (fgets_lines n (c # acc) cs)" by auto
    then show ?thesis using Cons.IH [of "c # acc"] by simp
  qed
qed

lemma cstr_prefix: "prefix (cstr a) a"
  unfolding cstr_def by (metis takeWhile_dropWhile_id prefixI)

lemma scan_log_no_marker:
  assumes "\<not> strstr content ''definitely lost:''"
  shows "scan_log content = 0"
proof -
  have "\<not> strstr (cstr line) ''definitely lost:''"
    if "line \<in> set (fgets_lines 511 [] content)" for line
  proof
    assume "strstr (cstr line) ''definitely lost:''"
    then have "sublist ''definitely lost:'' (cstr line)"
      by (rule strstr_sublist [THEN iffD1])
    moreover have "sublist (cstr line) line"
      using cstr_prefix by (rule prefix_imp_sublist)
    moreover have "sublist line content"
      using fgets_lines_sublist [OF that] by simp
    ultimately have "sublist ''definitely lost:'' content"
      by (meson sublist_order.order_trans)
    then have "strstr content ''definitely lost:''"
      by (rule strstr_sublist [THEN iffD2])
    with assms show False by blast
  qed
  then have "find (\<lambda>line. strstr (cstr line) ''definitely lost:'')
               (fgets_lines 511 [] content) = None"
    by (simp add: find_None_iff)
  then show ?thesis by (simp add: scan_log_def)
qed

lemma analyze_memory_with_log:
  assumes "num_tests (test_suite st) \<noteq> 0"
    and "checker_outcome env (valgrind_command st) = Some (Some content)"
  shows "analyze_memory env st =
           Some (leak_score (scan_log content), st\<lparr>valgrind_log := None\<rparr>)"
  using assms by (simp add: analyze_memory_def)

lemma clean_log_scan: "scan_log clean_log = 0"
  unfolding clean_log_def by code_simp

lemma idle_has_tests: "num_tests (test_suite idle) \<noteq> 0"
  by (simp add: num_tests_def idle_def sum_suite_def)

lemma grouped_log_scan: "scan_log grouped_log = 1"
  unfolding grouped_log_def by code_simp

lemma plain_log_scan: "scan_log plain_log = 1500"
  unfolding plain_log_def by code_simp

text \<open>
  When the audit runs and the checker's log can be opened, the score is a step function
  of the number that the scan of the first marker line leaves in \<open>definitely_lost\<close>.
\<close>

lemma analyze_memory_bands:
  assumes "num_tests (test_suite st) \<noteq> 0"
    and "checker_outcome env (valgrind_command st) = Some (Some content)"
  shows "\<exists>score st'. analyze_memory env st = Some (score, st') \<and>
           (scan_log content = 0 \<longrightarrow> score = 100) \<and>
           (0 < scan_log content \<and> scan_log content < 100 \<longrightarrow> score = 75) \<and>
           (100 \<le> scan_log content \<and> scan_log content < 1024 \<longrightarrow> score = 25) \<and>
           (1024 \<le> scan_log content \<longrightarrow> score = 0)"
  using analyze_memory_with_log [OF assms] by (auto simp: leak_score_def)

text \<open>
  Claim C5 fails on the code. The memory checker prints its byte counts with the digits
  grouped by commas, and the conversion \<open>%d\<close> stops at the first comma. For a log
  that reports 1,500 bytes definitely lost, the number parsed is 1 and the score is 75,
  where the claim gives 0 for 1024 bytes or more; the same report with the digits not
  grouped is scored 0.
\<close>

theorem grouped_count_is_misread:
  "map_option fst (analyze_memory (audit_env (Some (Some grouped_log))) idle) = Some 75 \<and>
   map_option fst (analyze_memory (audit_env (Some (Some plain_log))) idle) = Some 0"
proof -
  have g: "checker_outcome (audit_env (Some (Some grouped_log))) (valgrind_command idle)
             = Some (Some grouped_log)"
    by (simp add: audit_env_def)
  have p: "checker_outcome (audit_env (Some (Some plain_log))) (valgrind_command idle)
             = Some (Some plain_log)"
    by (simp add: audit_env_def)
  show ?thesis
    by (simp add: analyze_memory_with_log [OF idle_has_tests g]
          analyze_memory_with_log [OF idle_has_tests p]
          grouped_log_scan plain_log_scan leak_score_def)
qed

text \<open>
  Claim C10. After the audit has run, a log that cannot be opened gives the score 0,
  whereas a log that opens and does not hold the marker gives 100.
\<close>

theorem analyze_memory_unopenable_log:
  assumes "num_tests (test_suite st) \<noteq> 0"
  shows "(checker_outcome env (valgrind_command st) = Some None \<longrightarrow>
            map_option fst (analyze_memory env st) = Some 0) \<and>
         (\<forall>content. checker_outcome env (valgrind_command st) = Some (Some content) \<and>
                    \<not> strstr content ''definitely lost:'' \<longrightarrow>
            map_option fst (analyze_memory env st) = Some 100)"
proof (intro conjI impI allI)
  assume "checker_outcome env (valgrind_command st) = Some None"
  with assms show "map_option fst (analyze_memory env st) = Some 0"
    by (simp add: analyze_memory_def)
next
  fix content
  assume a: "checker_outcome env (valgrind_command st) = Some (Some content) \<and>
             \<not> strstr content ''definitely lost:''"
  then have "scan_log content = 0" using scan_log_no_marker by blast
  with a assms show "map_option fst (analyze_memory env st) = Some 100"
    by (simp add: analyze_memory_with_log leak_score_def)
qed

theorem analyze_memory_unopenable_log_witness:
  "num_tests (test_suite idle) \<noteq> 0 \<and>
   checker_outcome (audit_env (Some None)) (valgrind_command idle) = Some None \<and>
   map_option fst (analyze_memory (audit_env (Some None)) idle) = Some 0 \<and>
   checker_outcome (audit_env (Some (Some ''==7== HEAP SUMMARY:''))) (valgrind_command idle)
     = Some (Some ''==7== HEAP SUMMARY:'') \<and>
   \<not> strstr ''==7== HEAP SUMMARY:'' ''definitely lost:'' \<and>
   map_option fst (analyze_memory (audit_env (Some (Some ''==7== HEAP SUMMARY:''))) idle)
     = Some 100"
proof -
  have h1: "checker_outcome (audit_env (Some None)) (valgrind_command idle) = Some None"
    by (simp add: audit_env_def)
  have h2: "checker_outcome (audit_env (Some (Some ''==7== HEAP SUMMARY:'')))
              (valgrind_command idle) = Some (Some ''==7== HEAP SUMMARY:'')"
    by (simp add: audit_env_def)
  have h3: "\<not> strstr ''==7== HEAP SUMMARY:'' ''definitely lost:''"
    by simp
  from analyze_memory_unopenable_log [OF idle_has_tests, of "audit_env (Some None)"] h1
  have r1: "map_option fst (analyze_memory (audit_env (Some None)) idle) = Some 0"
    by blast
  from analyze_memory_unopenable_log
         [OF idle_has_tests, of "audit_env (Some (Some ''==7== HEAP SUMMARY:''))"] h2 h3
  have r2: "map_option fst
              (analyze_memory (audit_env (Some (Some ''==7== HEAP SUMMARY:''))) idle)
            = Some 100"
    by blast
  from idle_has_tests h1 h2 h3 r1 r2 show ?thesis by blast
qed

section \<open>Trimming and comparing the captured output\<close>

lemma compare_bytes_eq: "compare_bytes a b = 0 \<longleftrightarrow> a = b"
  by (induction a b rule: compare_bytes.induct) auto

lemma trim_len_le: "trim_len str n \<le> n"
  by (induction n) auto

lemma trim_len_take:
  "n \<le> length str \<Longrightarrow> take (trim_len str n) str = strip_trailing isspace (take n str)"
proof (induction n)
  case 0
  then show ?case by (simp add: strip_trailing_def)
next
  case (Suc n)
  then have n: "n < length str" by simp
  then have t: "take (Suc n) str = take n str @ [str ! n]"
    by (simp add: take_Suc_conv_app_nth)
  show ?case
  proof (cases "isspace (str ! n)")
    case True
    then show ?thesis using Suc n t by (simp add: strip_trailing_def)
  next
    case False
    then show ?thesis using t by (simp add: strip_trailing_def)
  qed
qed

lemma cstr_no_NUL: "NUL \<notin> set (cstr a)"
  unfolding cstr_def by (metis (mono_tags, lifting) set_takeWhileD)

lemma strlen_le: "strlen a \<le> length a"
  by (simp add: strlen_def cstr_def length_takeWhile_le)

lemma take_strlen: "take (strlen a) a = cstr a"
  unfolding strlen_def cstr_def by (rule takeWhile_eq_take [symmetric])

lemma cstr_cut:
  assumes "k \<le> strlen a"
  shows "cstr (a[k := NUL]) = take k a"
proof (cases "k < length a")
  case True
  have "a[k := NUL] = take k a @ NUL # drop (Suc k) a"
    using True by (simp add: upd_conv_take_nth_drop)
  moreover have "\<forall>c \<in> set (take k a). c \<noteq> NUL"
  proof -
    have "take k a = take k (cstr a)"
      using assms take_strlen [of a] by (metis min.absorb1 take_take)
    then show ?thesis using cstr_no_NUL [of a] by (metis in_set_takeD)
  qed
  ultimately show ?thesis
    by (simp add: cstr_def takeWhile_append2)
next
  case False
  then have k: "k = length a" and full: "strlen a = length a"
    using assms strlen_le [of a] by auto
  have "a[k := NUL] = a" using k by (simp add: list_update_beyond)
  moreover have "cstr a = a" using take_strlen [of a] full by simp
  ultimately show ?thesis using k by simp
qed

lemma cstr_trim: "cstr (trim_trailing_whitespace buf) = strip_trailing isspace (cstr buf)"
proof -
  let ?k = "trim_len buf (strlen buf)"
  have "cstr (trim_trailing_whitespace buf) = take ?k buf"
    unfolding trim_trailing_whitespace_def by (rule cstr_cut) (rule trim_len_le)
  also have "\<dots> = strip_trailing isspace (take (strlen buf) buf)"
    by (rule trim_len_take) (rule strlen_le)
  finally show ?thesis by (simp add: take_strlen)
qed

lemma strcmp_trimmed:
  "strcmp (trim_trailing_whitespace buf) expected = 0
     \<longleftrightarrow> strip_trailing isspace (cstr buf) = cstr expected"
  by (simp add: strcmp_def compare_bytes_eq cstr_trim)

text \<open>
  Claim C6 fails on the code. \<open>trim_trailing_whitespace\<close>, documented as removing
  trailing space, tab and newline, tests each character with \<open>isspace\<close>, which also
  accepts carriage return, vertical tab and form feed. A captured \<open>"abc\r"\<close>
  therefore compares equal to the expected \<open>"abc"\<close>, although stripping space, tab
  and newline leaves the carriage return in place.
\<close>

theorem carriage_return_is_trimmed:
  "strcmp (trim_trailing_whitespace (''abc'' @ [CHR 0x0D, NUL])) ''abc'' = 0 \<and>
   strip_trailing space_tab_newline (cstr (''abc'' @ [CHR 0x0D, NUL])) \<noteq> cstr ''abc''"
  by (simp add: strcmp_trimmed strip_trailing_def space_tab_newline_def isspace_def
        cstr_def NUL_def)

text \<open>
  What the comparison does: the captured output compares equal to the expected output
  exactly when the C string in the buffer, without its longest suffix of characters
  that \<open>isspace\<close> accepts, is the expected C string byte for byte.
\<close>

lemma trimmed_output_comparison:
  "(strcmp (trim_trailing_whitespace buf) expected = 0
      \<longleftrightarrow> strip_trailing isspace (cstr buf) = cstr expected) \<and>
   (isspace c \<longleftrightarrow> c \<in> {CHR '' '', CHR 0x09, CHR 0x0A, CHR 0x0B, CHR 0x0C, CHR 0x0D})"
  by (simp add: strcmp_trimmed) (auto simp: isspace_def)

lemma trimmed_output_examples:
  "strcmp (trim_trailing_whitespace
             (''abc'' @ [CHR 0x0A, CHR 0x0A, CHR '' '', CHR '' '', NUL, NUL])) ''abc'' = 0 \<and>
   strcmp (trim_trailing_whitespace (''abc '' @ [NUL, NUL])) ''ab c'' \<noteq> 0"
  using trimmed_output_comparison
          [of "''abc'' @ [CHR 0x0A, CHR 0x0A, CHR '' '', CHR '' '', NUL, NUL]" "''abc''"]
        trimmed_output_comparison [of "''abc '' @ [NUL, NUL]" "''ab c''"]
  by (simp add: strip_trailing_def isspace_def cstr_def NUL_def)

section \<open>Descriptors, processes and the polling loops\<close>

lemma fold_max_ge: "a \<le> fold max xs (a::nat)"
  by (induction xs arbitrary: a) (auto intro: order_trans [OF max.cobounded2])

lemma fold_max_mem: "x \<in> set xs \<Longrightarrow> x \<le> fold max xs (a::nat)"
proof (induction xs arbitrary: a)
  case Nil
  then show ?case by simp
next
  case (Cons y ys)
  show ?case
  proof (cases "x = y")
    case True
    have "max y a \<le> fold max ys (max y a)" by (rule fold_max_ge)
    with True show ?thesis by simp
  next
    case False
    with Cons.prems have "x \<in> set ys" by simp
    then show ?thesis using Cons.IH by simp
  qed
qed

lemma fresh_gt: "x \<in> set xs \<Longrightarrow> x < fresh xs"
  using fold_max_mem [of x xs 0] by (simp add: fresh_def)

lemma fresh_notin: "fresh xs \<notin> set xs"
  using fresh_gt [of "fresh xs" xs] by auto

lemma Suc_fresh_notin: "Suc (fresh xs) \<notin> set xs"
  using fresh_gt [of "Suc (fresh xs)" xs] by auto

lemma remove_proc_fresh:
  "remove_proc (fresh (map fst ps)) ((fresh (map fst ps), p) # ps) = ps"
proof -
  have "\<forall>e \<in> set ps. fst e \<noteq> fresh (map fst ps)"
    using fresh_notin [of "map fst ps"] by force
  then show ?thesis by (simp add: remove_proc_def)
qed

lemma update_proc_fresh:
  "update_proc (fresh (map fst ps)) q ((fresh (map fst ps), p) # ps)
     = (fresh (map fst ps), q) # ps"
proof -
  have "\<forall>e \<in> set ps. fst e \<noteq> fresh (map fst ps)"
    using fresh_notin [of "map fst ps"] by force
  then have "map (\<lambda>e. if fst e = fresh (map fst ps) then (fresh (map fst ps), q) else e) ps = ps"
    by (simp add: map_idI)
  then show ?thesis by (simp add: update_proc_def)
qed

text \<open>The descriptors of the two pipes.\<close>

lemma pipe_fds_close:
  fixes fds :: "nat list"
  defines "a \<equiv> fresh fds"
  defines "c \<equiv> fresh (Suc a # a # fds)"
  shows "removeAll (Suc a) (removeAll (Suc c) (removeAll a (Suc c # c # Suc a # a # fds))) = c # fds"
    and "removeAll c (c # fds) = fds"
    and "c \<noteq> a" and "c \<noteq> Suc a" and "c \<noteq> Suc c"
    and "removeAll (Suc c) (removeAll a (Suc c # c # Suc a # a # fds)) = c # Suc a # fds"
    and "removeAll (Suc a) (c # Suc a # fds) = c # fds"
proof -
  have a: "a \<notin> set fds" "Suc a \<notin> set fds"
    unfolding a_def by (rule fresh_notin, rule Suc_fresh_notin)
  have c: "c \<notin> set fds" "Suc c \<notin> set fds" "a < c" "Suc a < c"
    using fresh_notin [of "Suc a # a # fds"] Suc_fresh_notin [of "Suc a # a # fds"]
      fresh_gt [of a "Suc a # a # fds"] fresh_gt [of "Suc a" "Suc a # a # fds"]
    unfolding c_def by auto
  show "removeAll (Suc a) (removeAll (Suc c) (removeAll a (Suc c # c # Suc a # a # fds))) = c # fds"
    using a c by (simp add: removeAll_id)
  show "removeAll c (c # fds) = fds" using c by (simp add: removeAll_id)
  show "c \<noteq> a" "c \<noteq> Suc a" "c \<noteq> Suc c" using c by auto
  show "removeAll (Suc c) (removeAll a (Suc c # c # Suc a # a # fds)) = c # Suc a # fds"
    using a c by (simp add: removeAll_id)
  show "removeAll (Suc a) (c # Suc a # fds) = c # fds"
    using a c by (simp add: removeAll_id)
qed

lemma map_of_filter_other:
  "k \<noteq> k' \<Longrightarrow> map_of (filter (\<lambda>e. fst e \<noteq> k') xs) k = map_of xs k"
  by (induction xs) auto


lemma exited_zero: "WIFEXITED st \<and> WEXITSTATUS st = 0 \<longleftrightarrow> st = Exited 0"
  by (cases st) auto

lemma nohang_known:
  assumes "map_of (procs w) pid = Some p"
  shows "sys_waitpid_nohang pid w =
           (if alive (clock w) p
            then (w\<lparr>calls := calls w @ [SysWaitpid pid True]\<rparr>, StillRunning)
            else (w\<lparr>procs := remove_proc pid (procs w),
                    reaped := reaped w @ [(pid, dies_with p)],
                    calls := calls w @ [SysWaitpid pid True]\<rparr>, Reaped (dies_with p)))"
  using assms by (simp add: sys_waitpid_nohang_def)

lemma nohang_not_reaped:
  assumes "sys_waitpid_nohang pid w = (w1, r)" and "\<forall>st. r \<noteq> Reaped st"
  shows "w1 = w\<lparr>calls := calls w @ [SysWaitpid pid True]\<rparr>"
  using assms by (auto simp: sys_waitpid_nohang_def split: option.splits if_splits)

lemma sys_read_none_iff:
  assumes "fd \<in> set (open_fds w)" and "map_of (pipes w) fd = Some bytes"
  shows "sys_read fd n w = None
           \<longleftrightarrow> n \<noteq> 0 \<and> bytes = [] \<and> map_of (peers w) fd = Some None"
  using assms by (auto simp: sys_read_def Let_def split: option.splits)

lemma sys_read_some:
  assumes "fd \<in> set (open_fds w)" and "map_of (pipes w) fd = Some bytes"
    and "sys_read fd n w = Some (w2, res)"
  shows "res = Some (take n bytes) \<and> open_fds w2 = open_fds w \<and> procs w2 = procs w \<and>
         reaped w2 = reaped w"
  using assms by (auto simp: sys_read_def Let_def split: option.splits if_splits)

lemma wait_loop_expired:
  "\<not> current_time_ms w - start < TIMEOUT_SECONDS * 1000 \<Longrightarrow>
     wait_loop env pid out_r buf buffer_size start k w = Some (Inr w)"
  by (subst wait_loop.simps) simp

lemma wait_loop_reaped:
  "current_time_ms w - start < TIMEOUT_SECONDS * 1000 \<Longrightarrow>
   sys_waitpid_nohang pid w = (w1, Reaped st) \<Longrightarrow>
     wait_loop env pid out_r buf buffer_size start k w =
       (if st = Exited 0
        then (case sys_read out_r (unat (buffer_size - 1)) w1 of
                None \<Rightarrow> None
              | Some (w2, Some bytes) \<Rightarrow>
                  Some (Inl (0, store_output buf bytes, sys_close out_r w2))
              | Some (w2, None) \<Rightarrow> Some (Inl (0, buf, sys_close out_r w2)))
        else Some (Inl (- 1, buf, sys_close out_r w1)))"
  by (subst wait_loop.simps) (simp add: exited_zero)

lemma wait_loop_reaped_not_deadline:
  "current_time_ms w - start < TIMEOUT_SECONDS * 1000 \<Longrightarrow>
   sys_waitpid_nohang pid w = (w1, Reaped st) \<Longrightarrow>
     wait_loop env pid out_r buf buffer_size start k w \<noteq> Some (Inr w')"
  by (simp add: wait_loop_reaped split: option.splits prod.splits)

lemma wait_loop_again:
  "current_time_ms w - start < TIMEOUT_SECONDS * 1000 \<Longrightarrow>
   sys_waitpid_nohang pid w = (w1, r) \<Longrightarrow> \<forall>st. r \<noteq> Reaped st \<Longrightarrow>
     wait_loop env pid out_r buf buffer_size start k w =
       wait_loop env pid out_r buf buffer_size start (Suc k)
         (sys_usleep 10000 (oversleep env k) w1)"
  by (subst wait_loop.simps) (cases r; simp)

lemma poll_time_mono: "poll_time env t0 k \<le> poll_time env t0 (k + j)"
  by (induction j) auto

lemma alive_antimono: "alive t p \<Longrightarrow> s \<le> t \<Longrightarrow> alive s p"
  by (auto simp: alive_def split: option.splits)

text \<open>Which exit the loop takes.\<close>

lemma wait_loop_deadline_iff:
  assumes "map_of (procs w) pid = Some p"
    and "clock w = poll_time env t0 k"
    and "start = int t0"
  shows "(\<exists>w'. wait_loop env pid out_r buf buffer_size start k w = Some (Inr w'))
           \<longleftrightarrow> \<not> (\<exists>j. k \<le> j \<and> seen_by_poll env t0 5000 p j)"
  using assms
proof (induction env pid out_r buf buffer_size start k w rule: wait_loop.induct)
  case (1 env pid out_r buf buffer_size start k w)
  show ?case
  proof (cases "current_time_ms w - start < TIMEOUT_SECONDS * 1000")
    case False
    then have out: "\<not> poll_time env t0 k < t0 + 5000"
      using "1.prems" by (simp add: current_time_ms_def TIMEOUT_SECONDS_def)
    have "\<not> seen_by_poll env t0 5000 p j" if "k \<le> j" for j
    proof -
      have "poll_time env t0 k \<le> poll_time env t0 j"
        using poll_time_mono [of env t0 k "j - k"] that by simp
      with out show ?thesis by (simp add: seen_by_poll_def)
    qed
    moreover have "wait_loop env pid out_r buf buffer_size start k w = Some (Inr w)"
      using False by (rule wait_loop_expired)
    ultimately show ?thesis by auto
  next
    case True
    then have inw: "poll_time env t0 k < t0 + 5000"
      using "1.prems" by (simp add: current_time_ms_def TIMEOUT_SECONDS_def)
    show ?thesis
    proof (cases "alive (clock w) p")
      case False
      then have "seen_by_poll env t0 5000 p k"
        using inw "1.prems" by (simp add: seen_by_poll_def)
      moreover have "wait_loop env pid out_r buf buffer_size start k w \<noteq> Some (Inr w')" for w'
        using wait_loop_reaped_not_deadline [OF True, of pid _ "dies_with p"]
          False nohang_known [OF "1.prems"(1)]
        by simp
      ultimately show ?thesis by auto
    next
      case alive: True
      let ?w1 = "w\<lparr>calls := calls w @ [SysWaitpid pid True]\<rparr>"
      let ?w2 = "sys_usleep 10000 (oversleep env k) ?w1"
      have nh: "sys_waitpid_nohang pid w = (?w1, StillRunning)"
        using alive nohang_known [OF "1.prems"(1)] by simp
      have step: "wait_loop env pid out_r buf buffer_size start k w
                    = wait_loop env pid out_r buf buffer_size start (Suc k) ?w2"
        using wait_loop_again [OF True nh] by simp
      have p2: "map_of (procs ?w2) pid = Some p"
        using "1.prems"(1) by (simp add: sys_usleep_def)
      have c2: "clock ?w2 = poll_time env t0 (Suc k)"
        using "1.prems"(2) by (simp add: sys_usleep_def)
      have IH: "(\<exists>w'. wait_loop env pid out_r buf buffer_size start (Suc k) ?w2 = Some (Inr w'))
                  \<longleftrightarrow> \<not> (\<exists>j. Suc k \<le> j \<and> seen_by_poll env t0 5000 p j)"
        using "1.IH"(2) [OF True nh [symmetric] refl p2 c2 "1.prems"(3)] by simp
      have notk: "\<not> seen_by_poll env t0 5000 p k"
        using alive "1.prems"(2) by (simp add: seen_by_poll_def)
      have "(\<exists>j. Suc k \<le> j \<and> seen_by_poll env t0 5000 p j)
              \<longleftrightarrow> (\<exists>j. k \<le> j \<and> seen_by_poll env t0 5000 p j)"
        using notk by (metis Suc_leD Suc_leI le_neq_implies_less)
      with IH step show ?thesis by simp
    qed
  qed
qed

text \<open>When the loop does not come back: the \<open>read\<close> after a poll that found exit 0.\<close>

lemma wait_loop_blocks_iff:
  assumes "map_of (procs w) pid = Some p"
    and "clock w = poll_time env t0 k"
    and "start = int t0"
    and "out_r \<in> set (open_fds w)"
    and "map_of (pipes w) out_r = Some bytes"
    and "map_of (peers w) out_r = Some until"
  shows "wait_loop env pid out_r buf buffer_size start k w = None
           \<longleftrightarrow> (\<exists>j. k \<le> j \<and> seen_by_poll env t0 5000 p j) \<and> dies_with p = Exited 0 \<and>
               bytes = [] \<and> unat (buffer_size - 1) \<noteq> 0 \<and> until = None"
  using assms
proof (induction env pid out_r buf buffer_size start k w rule: wait_loop.induct)
  case (1 env pid out_r buf buffer_size start k w)
  show ?case
  proof (cases "current_time_ms w - start < TIMEOUT_SECONDS * 1000")
    case False
    then have out: "\<not> poll_time env t0 k < t0 + 5000"
      using "1.prems" by (simp add: current_time_ms_def TIMEOUT_SECONDS_def)
    have "\<not> seen_by_poll env t0 5000 p j" if "k \<le> j" for j
    proof -
      have "poll_time env t0 k \<le> poll_time env t0 j"
        using poll_time_mono [of env t0 k "j - k"] that by simp
      with out show ?thesis by (simp add: seen_by_poll_def)
    qed
    moreover have "wait_loop env pid out_r buf buffer_size start k w = Some (Inr w)"
      using False by (rule wait_loop_expired)
    ultimately show ?thesis by auto
  next
    case True
    then have inw: "poll_time env t0 k < t0 + 5000"
      using "1.prems" by (simp add: current_time_ms_def TIMEOUT_SECONDS_def)
    show ?thesis
    proof (cases "alive (clock w) p")
      case False
      let ?w1 = "w\<lparr>procs := remove_proc pid (procs w),
                    reaped := reaped w @ [(pid, dies_with p)],
                    calls := calls w @ [SysWaitpid pid True]\<rparr>"
      have seen: "seen_by_poll env t0 5000 p k"
        using False inw "1.prems" by (simp add: seen_by_poll_def)
      have nh: "sys_waitpid_nohang pid w = (?w1, Reaped (dies_with p))"
        using False nohang_known [OF "1.prems"(1)] by simp
      have o: "out_r \<in> set (open_fds ?w1)" "map_of (pipes ?w1) out_r = Some bytes"
        "map_of (peers ?w1) out_r = Some until"
        using "1.prems"(4,5,6) by simp_all
      have "wait_loop env pid out_r buf buffer_size start k w = None
              \<longleftrightarrow> dies_with p = Exited 0 \<and>
                  sys_read out_r (unat (buffer_size - 1)) ?w1 = None"
        by (simp add: wait_loop_reaped [OF True nh] split: option.splits prod.splits)
      also have "\<dots> \<longleftrightarrow> dies_with p = Exited 0 \<and> unat (buffer_size - 1) \<noteq> 0 \<and>
                         bytes = [] \<and> until = None"
        using sys_read_none_iff [OF o(1,2), of "unat (buffer_size - 1)"] o(3) by auto
      finally show ?thesis using seen by auto
    next
      case alive: True
      let ?w1 = "w\<lparr>calls := calls w @ [SysWaitpid pid True]\<rparr>"
      let ?w2 = "sys_usleep 10000 (oversleep env k) ?w1"
      have nh: "sys_waitpid_nohang pid w = (?w1, StillRunning)"
        using alive nohang_known [OF "1.prems"(1)] by simp
      have step: "wait_loop env pid out_r buf buffer_size start k w
                    = wait_loop env pid out_r buf buffer_size start (Suc k) ?w2"
        using wait_loop_again [OF True nh] by simp
      have p2: "map_of (procs ?w2) pid = Some p"
        using "1.prems"(1) by (simp add: sys_usleep_def)
      have c2: "clock ?w2 = poll_time env t0 (Suc k)"
        using "1.prems"(2) by (simp add: sys_usleep_def)
      have o2: "out_r \<in> set (open_fds ?w2)" "map_of (pipes ?w2) out_r = Some bytes"
        "map_of (peers ?w2) out_r = Some until"
        using "1.prems"(4,5,6) by (simp_all add: sys_usleep_def)
      have IH: "wait_loop env pid out_r buf buffer_size start (Suc k) ?w2 = None
                  \<longleftrightarrow> (\<exists>j. Suc k \<le> j \<and> seen_by_poll env t0 5000 p j) \<and>
                      dies_with p = Exited 0 \<and> bytes = [] \<and>
                      unat (buffer_size - 1) \<noteq> 0 \<and> until = None"
        using "1.IH"(2) [OF True nh [symmetric] refl p2 c2 "1.prems"(3) o2] by simp
      have notk: "\<not> seen_by_poll env t0 5000 p k"
        using alive "1.prems"(2) by (simp add: seen_by_poll_def)
      have "(\<exists>j. Suc k \<le> j \<and> seen_by_poll env t0 5000 p j)
              \<longleftrightarrow> (\<exists>j. k \<le> j \<and> seen_by_poll env t0 5000 p j)"
        using notk by (metis Suc_leD Suc_leI le_neq_implies_less)
      with IH step show ?thesis by simp
    qed
  qed
qed

lemma wait_loop_deadline:
  "wait_loop env pid out_r buf buffer_size start k w = Some (Inr w') \<Longrightarrow>
     procs w' = procs w \<and> open_fds w' = open_fds w \<and> pipes w' = pipes w \<and>
     reaped w' = reaped w \<and> \<not> current_time_ms w' - start < TIMEOUT_SECONDS * 1000"
proof (induction env pid out_r buf buffer_size start k w rule: wait_loop.induct)
  case (1 env pid out_r buf buffer_size start k w)
  show ?case
  proof (cases "current_time_ms w - start < TIMEOUT_SECONDS * 1000")
    case False
    then have "w' = w" using wait_loop_expired [OF False] "1.prems" by simp
    with False show ?thesis by simp
  next
    case True
    obtain w1 r where nh: "sys_waitpid_nohang pid w = (w1, r)"
      by (cases "sys_waitpid_nohang pid w")
    have nr: "\<forall>st. r \<noteq> Reaped st"
    proof (intro allI notI)
      fix st assume "r = Reaped st"
      then have "wait_loop env pid out_r buf buffer_size start k w \<noteq> Some (Inr w')"
        using wait_loop_reaped_not_deadline [OF True, of pid w1 st] nh by simp
      with "1.prems" show False by simp
    qed
    then have w1: "w1 = w\<lparr>calls := calls w @ [SysWaitpid pid True]\<rparr>"
      using nh nohang_not_reaped by blast
    let ?w2 = "sys_usleep 10000 (oversleep env k) w1"
    have step: "wait_loop env pid out_r buf buffer_size start (Suc k) ?w2 = Some (Inr w')"
      using wait_loop_again [OF True nh nr] "1.prems" by simp
    have r: "r = WaitError \<or> r = StillRunning" using nr by (cases r) auto
    have "procs w' = procs ?w2 \<and> open_fds w' = open_fds ?w2 \<and> pipes w' = pipes ?w2 \<and>
          reaped w' = reaped ?w2 \<and> \<not> current_time_ms w' - start < TIMEOUT_SECONDS * 1000"
      using "1.IH" True nh [symmetric] r step by blast
    then show ?thesis by (simp add: w1 sys_usleep_def)
  qed
qed

lemma wait_loop_return:
  assumes "map_of (procs w) pid = Some p"
    and "out_r \<in> set (open_fds w)"
    and "map_of (pipes w) out_r = Some bytes"
    and "wait_loop env pid out_r buf buffer_size start k w = Some (Inl (r, b, w'))"
  shows "procs w' = remove_proc pid (procs w) \<and>
         open_fds w' = removeAll out_r (open_fds w) \<and>
         reaped w' = reaped w @ [(pid, dies_with p)] \<and>
         (if dies_with p = Exited 0
          then r = 0 \<and> b = store_output buf (take (unat (buffer_size - 1)) bytes)
          else r = - 1 \<and> b = buf)"
  using assms
proof (induction env pid out_r buf buffer_size start k w rule: wait_loop.induct)
  case (1 env pid out_r buf buffer_size start k w)
  have True: "current_time_ms w - start < TIMEOUT_SECONDS * 1000"
  proof (rule ccontr)
    assume "\<not> current_time_ms w - start < TIMEOUT_SECONDS * 1000"
    from wait_loop_expired [OF this, of env pid out_r buf buffer_size k] "1.prems"(4)
    show False by simp
  qed
  show ?case
  proof (cases "alive (clock w) p")
    case False
    let ?w1 = "w\<lparr>procs := remove_proc pid (procs w),
                  reaped := reaped w @ [(pid, dies_with p)],
                  calls := calls w @ [SysWaitpid pid True]\<rparr>"
    have nh: "sys_waitpid_nohang pid w = (?w1, Reaped (dies_with p))"
      using False nohang_known [OF "1.prems"(1)] by simp
    note res = wait_loop_reaped [OF True nh, of env out_r buf buffer_size k]
    have o: "out_r \<in> set (open_fds ?w1)" "map_of (pipes ?w1) out_r = Some bytes"
      using "1.prems"(2,3) by simp_all
    show ?thesis
    proof (cases "dies_with p = Exited 0")
      case ex: True
      from res ex "1.prems"(4) obtain w2 rd where
        rd: "sys_read out_r (unat (buffer_size - 1)) ?w1 = Some (w2, rd)"
        by (cases "sys_read out_r (unat (buffer_size - 1)) ?w1") auto
      note sh = sys_read_some [OF o rd]
      have "Some (Inl (r, b, w')) =
              (Some (Inl (0, store_output buf (take (unat (buffer_size - 1)) bytes),
                   sys_close out_r w2))
                :: ((int \<times> string \<times> world) + world) option)"
        using res ex "1.prems"(4) rd sh by simp
      then have "r = 0" "b = store_output buf (take (unat (buffer_size - 1)) bytes)"
        "w' = sys_close out_r w2"
        by simp_all
      then show ?thesis using ex sh by (simp add: sys_close_def)
    next
      case nex: False
      have "Some (Inl (r, b, w')) = (Some (Inl (- 1, buf, sys_close out_r ?w1))
              :: ((int \<times> string \<times> world) + world) option)"
        using res nex "1.prems"(4) by simp
      then have "r = - 1" "b = buf" "w' = sys_close out_r ?w1" by simp_all
      then show ?thesis using nex by (simp add: sys_close_def)
    qed
  next
    case alive: True
    let ?w1 = "w\<lparr>calls := calls w @ [SysWaitpid pid True]\<rparr>"
    let ?w2 = "sys_usleep 10000 (oversleep env k) ?w1"
    have nh: "sys_waitpid_nohang pid w = (?w1, StillRunning)"
      using alive nohang_known [OF "1.prems"(1)] by simp
    have step: "wait_loop env pid out_r buf buffer_size start (Suc k) ?w2
                  = Some (Inl (r, b, w'))"
      using wait_loop_again [OF True nh] "1.prems"(4) by simp
    have a: "map_of (procs ?w2) pid = Some p" "out_r \<in> set (open_fds ?w2)"
      "map_of (pipes ?w2) out_r = Some bytes"
      using "1.prems" by (simp_all add: sys_usleep_def)
    have "procs w' = remove_proc pid (procs ?w2) \<and>
          open_fds w' = removeAll out_r (open_fds ?w2) \<and>
          reaped w' = reaped ?w2 @ [(pid, dies_with p)] \<and>
          (if dies_with p = Exited 0
           then r = 0 \<and> b = store_output buf (take (unat (buffer_size - 1)) bytes)
           else r = - 1 \<and> b = buf)"
      using "1.IH" True nh [symmetric] a step by blast
    then show ?thesis by (simp add: sys_usleep_def)
  qed
qed

text \<open>
  The state in which the parent writes the input, and whether the write kills it; the
  state in which the polling starts when it does not.
\<close>

lemma child_ends_gone:
  "(case fst (child_ends env inp now) of None \<Rightarrow> False | Some t \<Rightarrow> t \<le> now)
     \<longleftrightarrow> reader_gone env inp"
  by (auto simp: child_ends_def reader_gone_def Let_def split: option.splits)

lemma child_ends_stays:
  "snd (child_ends env inp now) = None \<longleftrightarrow> writer_stays env inp"
  by (auto simp: child_ends_def writer_stays_def Let_def)

lemma run_test_process_write:
  assumes "\<not> pipe1_fails env" "\<not> pipe2_fails env" "\<not> fork_fails env"
  shows "\<exists>w5. run_test_process env inp buf buffer_size w =
           (case sys_write (Suc (fresh (open_fds w))) inp w5 of
              None \<Rightarrow> None
            | Some w6 \<Rightarrow>
                (case wait_loop env (child_pid w) (stdout_fd w) buf buffer_size
                        (int (clock w)) 0 (sys_close (Suc (fresh (open_fds w))) w6) of
                   None \<Rightarrow> None
                 | Some (Inl r) \<Rightarrow> Some r
                 | Some (Inr w8) \<Rightarrow>
                     (case sys_waitpid_block (child_pid w)
                             (sys_kill (child_pid w) SIGKILL w8) of
                        None \<Rightarrow> None
                      | Some (w9, r) \<Rightarrow> Some (- 1, buf, sys_close (stdout_fd w) w9))))
         \<and> clock w5 = clock w
         \<and> open_fds w5 = stdout_fd w # Suc (fresh (open_fds w)) # open_fds w
         \<and> procs w5 = (child_pid w, spawned env inp w) # procs w
         \<and> map_of (pipes w5) (stdout_fd w) = Some (piped (spawned env inp w))
         \<and> reaped w5 = reaped w
         \<and> map_of (peers w5) (Suc (fresh (open_fds w))) = Some (fst (child_ends env inp (clock w)))
         \<and> map_of (peers w5) (stdout_fd w) = Some (snd (child_ends env inp (clock w)))"
proof -
  let ?a = "fresh (open_fds w)"
  let ?c = "fresh (Suc ?a # ?a # open_fds w)"
  let ?pid = "fresh (map fst (procs w))"
  let ?child = "test_child env inp ?c (clock w)"
  let ?ends = "child_ends env inp (clock w)"
  let ?w1 = "w\<lparr>open_fds := Suc ?a # ?a # open_fds w, calls := calls w @ [SysPipe]\<rparr>"
  let ?w2 = "?w1\<lparr>open_fds := Suc ?c # ?c # open_fds ?w1, calls := calls ?w1 @ [SysPipe]\<rparr>"
  let ?w3 = "?w2\<lparr>procs := (?pid, ?child) # procs ?w2,
                  pipes := (?c, piped ?child) # pipes ?w2,
                  calls := calls ?w2 @ [SysFork]\<rparr>"
  let ?w5 = "sys_close (Suc ?c)
               (sys_close ?a (child_holds (Suc ?a) (fst ?ends) (child_holds ?c (snd ?ends) ?w3)))"
  note fds = pipe_fds_close [of "open_fds w"]
  have p1: "sys_pipe (pipe1_fails env) w = (?w1, Some (?a, Suc ?a))"
    using assms(1) by (simp add: sys_pipe_def Let_def)
  have p2: "sys_pipe (pipe2_fails env) ?w1 = (?w2, Some (?c, Suc ?c))"
    using assms(2) by (simp add: sys_pipe_def Let_def)
  have op: "out_pipe ?child = Some ?c"
    by (simp add: test_child_def Let_def)
  have f: "sys_fork (fork_fails env) (test_child env inp ?c (clock ?w2)) ?w2 = (?w3, Some ?pid)"
    using assms(3) op by (simp add: sys_fork_def Let_def)
  have c3: "clock ?w3 = clock w" by simp
  have c5: "clock ?w5 = clock w" by (simp add: sys_close_def child_holds_def)
  define w5 where "w5 = ?w5"
  have pre: "run_test_process env inp buf buffer_size w =
           (case sys_write (Suc ?a) inp w5 of
              None \<Rightarrow> None
            | Some w6 \<Rightarrow>
                (case wait_loop env ?pid ?c buf buffer_size
                        (current_time_ms (sys_close (Suc ?a) w6)) 0 (sys_close (Suc ?a) w6) of
                   None \<Rightarrow> None
                 | Some (Inl r) \<Rightarrow> Some r
                 | Some (Inr w8) \<Rightarrow>
                     (case sys_waitpid_block ?pid (sys_kill ?pid SIGKILL w8) of
                        None \<Rightarrow> None
                      | Some (w9, r) \<Rightarrow> Some (- 1, buf, sys_close ?c w9))))"
    unfolding run_test_process_def p1 w5_def
    by (simp only: prod.case option.case p2 f Let_def c3 fst_conv snd_conv)
  have run: "run_test_process env inp buf buffer_size w =
           (case sys_write (Suc ?a) inp ?w5 of
              None \<Rightarrow> None
            | Some w6 \<Rightarrow>
                (case wait_loop env ?pid ?c buf buffer_size (int (clock w)) 0
                        (sys_close (Suc ?a) w6) of
                   None \<Rightarrow> None
                 | Some (Inl r) \<Rightarrow> Some r
                 | Some (Inr w8) \<Rightarrow>
                     (case sys_waitpid_block ?pid (sys_kill ?pid SIGKILL w8) of
                        None \<Rightarrow> None
                      | Some (w9, r) \<Rightarrow> Some (- 1, buf, sys_close ?c w9))))"
  proof (cases "sys_write (Suc ?a) inp w5")
    case None
    then show ?thesis unfolding pre w5_def [symmetric] by simp
  next
    case (Some w6)
    then have "w6 = w5\<lparr>calls := calls w5 @ [SysWrite (Suc ?a) inp]\<rparr>"
      by (simp add: sys_write_def split: if_splits)
    then have "current_time_ms (sys_close (Suc ?a) w6) = int (clock w)"
      using c5 by (simp add: current_time_ms_def sys_close_def w5_def)
    then show ?thesis unfolding pre w5_def [symmetric] Some by simp
  qed
  have "open_fds ?w5 = ?c # Suc ?a # open_fds w"
    using fds(6) by (simp add: sys_close_def child_holds_def)
  moreover have "procs ?w5 = (?pid, ?child) # procs w"
    by (simp add: sys_close_def child_holds_def)
  moreover have "map_of (pipes ?w5) ?c = Some (piped ?child)"
    using fds(3,4,5) by (simp add: sys_close_def child_holds_def)
  moreover have "reaped ?w5 = reaped w"
    by (simp add: sys_close_def child_holds_def)
  moreover have "map_of (peers ?w5) (Suc ?a) = Some (fst ?ends)"
    using fds(3,4,5) by (simp add: sys_close_def child_holds_def)
  moreover have "map_of (peers ?w5) ?c = Some (snd ?ends)"
    using fds(3,4,5) by (simp add: sys_close_def child_holds_def)
  ultimately show ?thesis
    unfolding stdout_fd_def child_pid_def spawned_def using run c5 by blast
qed

lemma run_test_process_sigpipe:
  assumes "\<not> pipe1_fails env" "\<not> pipe2_fails env" "\<not> fork_fails env"
    and "inp \<noteq> []" and "reader_gone env inp"
  shows "run_test_process env inp buf buffer_size w = None"
proof -
  from run_test_process_write [OF assms(1-3), of inp buf buffer_size w]
  obtain w5 where run: "run_test_process env inp buf buffer_size w =
           (case sys_write (Suc (fresh (open_fds w))) inp w5 of
              None \<Rightarrow> None
            | Some w6 \<Rightarrow>
                (case wait_loop env (child_pid w) (stdout_fd w) buf buffer_size
                        (int (clock w)) 0 (sys_close (Suc (fresh (open_fds w))) w6) of
                   None \<Rightarrow> None
                 | Some (Inl r) \<Rightarrow> Some r
                 | Some (Inr w8) \<Rightarrow>
                     (case sys_waitpid_block (child_pid w)
                             (sys_kill (child_pid w) SIGKILL w8) of
                        None \<Rightarrow> None
                      | Some (w9, r) \<Rightarrow> Some (- 1, buf, sys_close (stdout_fd w) w9))))"
    and c: "clock w5 = clock w"
    and pe: "map_of (peers w5) (Suc (fresh (open_fds w)))
               = Some (fst (child_ends env inp (clock w)))"
    by blast
  have "peer_gone (Suc (fresh (open_fds w))) w5"
    using child_ends_gone [where env = env and inp = inp and now = "clock w"] assms(5)
    by (simp add: peer_gone_def pe c split: option.splits)
  then have "sys_write (Suc (fresh (open_fds w))) inp w5 = None"
    using assms(4) by (simp add: sys_write_def)
  then show ?thesis by (simp add: run)
qed

lemma run_test_process_spawn:
  assumes "\<not> pipe1_fails env" "\<not> pipe2_fails env" "\<not> fork_fails env"
    and "inp = [] \<or> \<not> reader_gone env inp"
  shows "\<exists>w7. run_test_process env inp buf buffer_size w =
           (case wait_loop env (child_pid w) (stdout_fd w) buf buffer_size
                   (int (clock w)) 0 w7 of
              None \<Rightarrow> None
            | Some (Inl r) \<Rightarrow> Some r
            | Some (Inr w8) \<Rightarrow>
                (case sys_waitpid_block (child_pid w)
                        (sys_kill (child_pid w) SIGKILL w8) of
                   None \<Rightarrow> None
                 | Some (w9, r) \<Rightarrow> Some (- 1, buf, sys_close (stdout_fd w) w9)))
         \<and> clock w7 = clock w
         \<and> open_fds w7 = stdout_fd w # open_fds w
         \<and> procs w7 = (child_pid w, spawned env inp w) # procs w
         \<and> map_of (pipes w7) (stdout_fd w) = Some (piped (spawned env inp w))
         \<and> reaped w7 = reaped w
         \<and> map_of (peers w7) (stdout_fd w) = Some (snd (child_ends env inp (clock w)))"
proof -
  let ?a = "fresh (open_fds w)"
  note fds = pipe_fds_close [of "open_fds w"]
  from run_test_process_write [OF assms(1-3), of inp buf buffer_size w]
  obtain w5 where run: "run_test_process env inp buf buffer_size w =
           (case sys_write (Suc ?a) inp w5 of
              None \<Rightarrow> None
            | Some w6 \<Rightarrow>
                (case wait_loop env (child_pid w) (stdout_fd w) buf buffer_size
                        (int (clock w)) 0 (sys_close (Suc ?a) w6) of
                   None \<Rightarrow> None
                 | Some (Inl r) \<Rightarrow> Some r
                 | Some (Inr w8) \<Rightarrow>
                     (case sys_waitpid_block (child_pid w)
                             (sys_kill (child_pid w) SIGKILL w8) of
                        None \<Rightarrow> None
                      | Some (w9, r) \<Rightarrow> Some (- 1, buf, sys_close (stdout_fd w) w9))))"
    and w5: "clock w5 = clock w" "open_fds w5 = stdout_fd w # Suc ?a # open_fds w"
      "procs w5 = (child_pid w, spawned env inp w) # procs w"
      "map_of (pipes w5) (stdout_fd w) = Some (piped (spawned env inp w))"
      "reaped w5 = reaped w"
      "map_of (peers w5) (Suc ?a) = Some (fst (child_ends env inp (clock w)))"
      "map_of (peers w5) (stdout_fd w) = Some (snd (child_ends env inp (clock w)))"
    by blast
  let ?w6 = "w5\<lparr>calls := calls w5 @ [SysWrite (Suc ?a) inp]\<rparr>"
  let ?w7 = "sys_close (Suc ?a) ?w6"
  have "\<not> (inp \<noteq> [] \<and> peer_gone (Suc ?a) w5)"
    using child_ends_gone [where env = env and inp = inp and now = "clock w"] assms(4)
    by (auto simp: peer_gone_def w5(1,6) split: option.splits)
  then have wr: "sys_write (Suc ?a) inp w5 = Some ?w6"
    by (simp add: sys_write_def)
  have ne: "stdout_fd w \<noteq> Suc ?a" using fds(4) by (simp add: stdout_fd_def)
  have "clock ?w7 = clock w" using w5(1) by (simp add: sys_close_def)
  moreover have "open_fds ?w7 = stdout_fd w # open_fds w"
    using w5(2) fds(7) by (simp add: sys_close_def stdout_fd_def)
  moreover have "procs ?w7 = (child_pid w, spawned env inp w) # procs w"
    using w5(3) by (simp add: sys_close_def)
  moreover have "map_of (pipes ?w7) (stdout_fd w) = Some (piped (spawned env inp w))"
    using w5(4) ne by (simp add: sys_close_def map_of_filter_other)
  moreover have "reaped ?w7 = reaped w" using w5(5) by (simp add: sys_close_def)
  moreover have "map_of (peers ?w7) (stdout_fd w) = Some (snd (child_ends env inp (clock w)))"
    using w5(7) ne by (simp add: sys_close_def map_of_filter_other)
  ultimately show ?thesis using run wr by (intro exI [of _ ?w7]) simp
qed


lemma kill_and_reap:
  assumes "procs w8 = (fresh (map fst ps), p) # ps"
  defines "pid \<equiv> fresh (map fst ps)"
  defines "st \<equiv> (if alive (clock w8) p then Signaled SIGKILL else dies_with p)"
  shows "\<exists>w9. sys_waitpid_block pid (sys_kill pid SIGKILL w8) = Some (w9, Reaped st) \<and>
           procs w9 = ps \<and> open_fds w9 = open_fds w8 \<and>
           reaped w9 = reaped w8 @ [(pid, st)] \<and>
           calls w9 = calls w8 @ [SysKill pid SIGKILL, SysWaitpid pid False]"
proof (cases "alive (clock w8) p")
  case True
  let ?p' = "p\<lparr>dies_at := Some (clock w8), dies_with := Signaled SIGKILL\<rparr>"
  have k: "sys_kill pid SIGKILL w8 =
             w8\<lparr>procs := (pid, ?p') # ps, calls := calls w8 @ [SysKill pid SIGKILL]\<rparr>"
    using True assms(1) unfolding pid_def
    by (simp add: sys_kill_def update_proc_fresh)
  show ?thesis
    unfolding k st_def using True
    by (simp add: sys_waitpid_block_def pid_def remove_proc_fresh)
next
  case False
  then obtain t where t: "dies_at p = Some t"
    by (auto simp: alive_def split: option.splits)
  have k: "sys_kill pid SIGKILL w8 = w8\<lparr>calls := calls w8 @ [SysKill pid SIGKILL]\<rparr>"
    using False assms(1) unfolding pid_def by (simp add: sys_kill_def)
  show ?thesis
    unfolding k st_def using False t assms(1)
    by (simp add: sys_waitpid_block_def pid_def remove_proc_fresh)
qed

text \<open>
  The three ways a call goes on after the input is written: a poll finds the child and
  the call returns; a poll finds the child and the \<open>read\<close> blocks; no poll finds it.
\<close>

lemma run_test_process_seen:
  assumes "\<not> pipe1_fails env" "\<not> pipe2_fails env" "\<not> fork_fails env"
    and "inp = [] \<or> \<not> reader_gone env inp"
    and "seen_by_poll env (clock w) 5000 (spawned env inp w) k"
    and "\<not> (dies_with (spawned env inp w) = Exited 0 \<and> piped (spawned env inp w) = [] \<and>
            unat (buffer_size - 1) \<noteq> 0 \<and> writer_stays env inp)"
  shows "\<exists>r b w'. run_test_process env inp buf buffer_size w = Some (r, b, w') \<and>
           open_fds w' = open_fds w \<and> procs w' = procs w \<and>
           reaped w' = reaped w @ [(child_pid w, dies_with (spawned env inp w))] \<and>
           (if dies_with (spawned env inp w) = Exited 0
            then r = 0 \<and>
                 b = store_output buf
                       (take (unat (buffer_size - 1)) (piped (spawned env inp w)))
            else r = - 1 \<and> b = buf)"
proof -
  let ?p = "spawned env inp w"
  from run_test_process_spawn [OF assms(1-4), of buf buffer_size w]
  obtain w7 where run: "run_test_process env inp buf buffer_size w =
           (case wait_loop env (child_pid w) (stdout_fd w) buf buffer_size
                   (int (clock w)) 0 w7 of
              None \<Rightarrow> None
            | Some (Inl r) \<Rightarrow> Some r
            | Some (Inr w8) \<Rightarrow>
                (case sys_waitpid_block (child_pid w)
                        (sys_kill (child_pid w) SIGKILL w8) of
                   None \<Rightarrow> None
                 | Some (w9, r) \<Rightarrow> Some (- 1, buf, sys_close (stdout_fd w) w9)))"
    and w7: "clock w7 = clock w" "open_fds w7 = stdout_fd w # open_fds w"
      "procs w7 = (child_pid w, ?p) # procs w"
      "map_of (pipes w7) (stdout_fd w) = Some (piped ?p)" "reaped w7 = reaped w"
      "map_of (peers w7) (stdout_fd w) = Some (snd (child_ends env inp (clock w)))"
    by blast
  have m: "map_of (procs w7) (child_pid w) = Some ?p" using w7(3) by simp
  have o: "stdout_fd w \<in> set (open_fds w7)" using w7(2) by simp
  have c: "clock w7 = poll_time env (clock w) 0" using w7(1) by simp
  have nd: "wait_loop env (child_pid w) (stdout_fd w) buf buffer_size
               (int (clock w)) 0 w7 \<noteq> Some (Inr w8)" for w8
    using wait_loop_deadline_iff [OF m c refl, of "stdout_fd w" buf buffer_size] assms(5)
    by auto
  have nb: "wait_loop env (child_pid w) (stdout_fd w) buf buffer_size
               (int (clock w)) 0 w7 \<noteq> None"
    using wait_loop_blocks_iff [OF m c refl o w7(4,6), of buf buffer_size] assms(6)
      child_ends_stays [where env = env and inp = inp and now = "clock w"]
    by auto
  obtain r b w' where l: "wait_loop env (child_pid w) (stdout_fd w) buf buffer_size
               (int (clock w)) 0 w7 = Some (Inl (r, b, w'))"
  proof (cases "wait_loop env (child_pid w) (stdout_fd w) buf buffer_size
               (int (clock w)) 0 w7")
    case None
    with nb show ?thesis by simp
  next
    case (Some x)
    with nd that show ?thesis by (cases x) auto
  qed
  note res = wait_loop_return [OF m o w7(4) l]
  have "procs w' = procs w"
    using res w7(3) by (simp add: child_pid_def remove_proc_fresh)
  moreover have "open_fds w' = open_fds w"
    using res w7(2) pipe_fds_close(2) [of "open_fds w"] by (simp add: stdout_fd_def)
  moreover have "run_test_process env inp buf buffer_size w = Some (r, b, w')"
    using run l by simp
  ultimately show ?thesis using res w7(5) by auto
qed

lemma run_test_process_blocked:
  assumes "\<not> pipe1_fails env" "\<not> pipe2_fails env" "\<not> fork_fails env"
    and "inp = [] \<or> \<not> reader_gone env inp"
    and "seen_by_poll env (clock w) 5000 (spawned env inp w) k"
    and "dies_with (spawned env inp w) = Exited 0" and "piped (spawned env inp w) = []"
    and "unat (buffer_size - 1) \<noteq> 0" and "writer_stays env inp"
  shows "run_test_process env inp buf buffer_size w = None"
proof -
  let ?p = "spawned env inp w"
  from run_test_process_spawn [OF assms(1-4), of buf buffer_size w]
  obtain w7 where run: "run_test_process env inp buf buffer_size w =
           (case wait_loop env (child_pid w) (stdout_fd w) buf buffer_size
                   (int (clock w)) 0 w7 of
              None \<Rightarrow> None
            | Some (Inl r) \<Rightarrow> Some r
            | Some (Inr w8) \<Rightarrow>
                (case sys_waitpid_block (child_pid w)
                        (sys_kill (child_pid w) SIGKILL w8) of
                   None \<Rightarrow> None
                 | Some (w9, r) \<Rightarrow> Some (- 1, buf, sys_close (stdout_fd w) w9)))"
    and w7: "clock w7 = clock w" "open_fds w7 = stdout_fd w # open_fds w"
      "procs w7 = (child_pid w, ?p) # procs w"
      "map_of (pipes w7) (stdout_fd w) = Some (piped ?p)" "reaped w7 = reaped w"
      "map_of (peers w7) (stdout_fd w) = Some (snd (child_ends env inp (clock w)))"
    by blast
  have m: "map_of (procs w7) (child_pid w) = Some ?p" using w7(3) by simp
  have o: "stdout_fd w \<in> set (open_fds w7)" using w7(2) by simp
  have c: "clock w7 = poll_time env (clock w) 0" using w7(1) by simp
  have "wait_loop env (child_pid w) (stdout_fd w) buf buffer_size
               (int (clock w)) 0 w7 = None"
    using wait_loop_blocks_iff [OF m c refl o w7(4,6), of buf buffer_size] assms(5-9)
      child_ends_stays [where env = env and inp = inp and now = "clock w"]
    by auto
  then show ?thesis by (simp add: run)
qed

lemma run_test_process_unseen:
  assumes "\<not> pipe1_fails env" "\<not> pipe2_fails env" "\<not> fork_fails env"
    and "inp = [] \<or> \<not> reader_gone env inp"
    and "\<forall>k. \<not> seen_by_poll env (clock w) 5000 (spawned env inp w) k"
  shows "\<exists>w' t. run_test_process env inp buf buffer_size w = Some (- 1, buf, w') \<and>
           open_fds w' = open_fds w \<and> procs w' = procs w \<and>
           clock w + 5000 \<le> t \<and>
           reaped w' = reaped w @ [(child_pid w,
               if alive t (spawned env inp w) then Signaled SIGKILL
               else dies_with (spawned env inp w))] \<and>
           (\<exists>pre. calls w' = pre @ [SysKill (child_pid w) SIGKILL,
                     SysWaitpid (child_pid w) False, SysClose (stdout_fd w)])"
proof -
  let ?p = "spawned env inp w"
  from run_test_process_spawn [OF assms(1-4), of buf buffer_size w]
  obtain w7 where run: "run_test_process env inp buf buffer_size w =
           (case wait_loop env (child_pid w) (stdout_fd w) buf buffer_size
                   (int (clock w)) 0 w7 of
              None \<Rightarrow> None
            | Some (Inl r) \<Rightarrow> Some r
            | Some (Inr w8) \<Rightarrow>
                (case sys_waitpid_block (child_pid w)
                        (sys_kill (child_pid w) SIGKILL w8) of
                   None \<Rightarrow> None
                 | Some (w9, r) \<Rightarrow> Some (- 1, buf, sys_close (stdout_fd w) w9)))"
    and w7: "clock w7 = clock w" "open_fds w7 = stdout_fd w # open_fds w"
      "procs w7 = (child_pid w, ?p) # procs w"
      "map_of (pipes w7) (stdout_fd w) = Some (piped ?p)" "reaped w7 = reaped w"
    by blast
  have m: "map_of (procs w7) (child_pid w) = Some ?p" using w7(3) by simp
  have c: "clock w7 = poll_time env (clock w) 0" using w7(1) by simp
  obtain w8 where l: "wait_loop env (child_pid w) (stdout_fd w) buf buffer_size
               (int (clock w)) 0 w7 = Some (Inr w8)"
    using wait_loop_deadline_iff [OF m c refl, of "stdout_fd w" buf buffer_size] assms(5)
    by auto
  note d = wait_loop_deadline [OF l]
  have pr: "procs w8 = (fresh (map fst (procs w)), ?p) # procs w"
    using d w7(3) by (simp add: child_pid_def)
  from kill_and_reap [OF pr]
  obtain w9 where k: "sys_waitpid_block (child_pid w) (sys_kill (child_pid w) SIGKILL w8) =
        Some (w9, Reaped (if alive (clock w8) ?p then Signaled SIGKILL else dies_with ?p))"
    and w9: "procs w9 = procs w" "open_fds w9 = open_fds w8"
      "reaped w9 = reaped w8 @ [(child_pid w,
          if alive (clock w8) ?p then Signaled SIGKILL else dies_with ?p)]"
      "calls w9 = calls w8 @ [SysKill (child_pid w) SIGKILL, SysWaitpid (child_pid w) False]"
    unfolding child_pid_def by blast
  let ?w' = "sys_close (stdout_fd w) w9"
  have "run_test_process env inp buf buffer_size w = Some (- 1, buf, ?w')"
    using run l k by simp
  moreover have "open_fds ?w' = open_fds w"
    using w9(2) d w7(2) pipe_fds_close(2) [of "open_fds w"]
    by (simp add: sys_close_def stdout_fd_def)
  moreover have "procs ?w' = procs w" using w9(1) by (simp add: sys_close_def)
  moreover have "clock w + 5000 \<le> clock w8"
    using d by (simp add: current_time_ms_def TIMEOUT_SECONDS_def)
  moreover have "reaped ?w' = reaped w @ [(child_pid w,
          if alive (clock w8) ?p then Signaled SIGKILL else dies_with ?p)]"
    using w9(3) d w7(5) by (simp add: sys_close_def)
  moreover have "calls ?w' = calls w8 @ [SysKill (child_pid w) SIGKILL,
                     SysWaitpid (child_pid w) False, SysClose (stdout_fd w)]"
    using w9(4) by (simp add: sys_close_def)
  ultimately show ?thesis by blast
qed


lemma grace_loop_expired:
  "\<not> current_time_ms w - start < 1000 \<Longrightarrow> grace_loop env pid start k w = Inr w"
  by (subst grace_loop.simps) simp

lemma grace_loop_reaped:
  "current_time_ms w - start < 1000 \<Longrightarrow> sys_waitpid_nohang pid w = (w1, Reaped st) \<Longrightarrow>
     grace_loop env pid start k w = Inl (100, w1)"
  by (subst grace_loop.simps) simp

lemma grace_loop_again:
  "current_time_ms w - start < 1000 \<Longrightarrow>
   sys_waitpid_nohang pid w = (w1, r) \<Longrightarrow> \<forall>st. r \<noteq> Reaped st \<Longrightarrow>
     grace_loop env pid start k w =
       grace_loop env pid start (Suc k) (sys_usleep 10000 (oversleep env k) w1)"
  by (subst grace_loop.simps) (cases r; simp)

lemma grace_loop_returns_iff:
  assumes "map_of (procs w) pid = Some p"
    and "clock w = poll_time env t0 k"
    and "start = int t0"
  shows "(\<exists>r. grace_loop env pid start k w = Inl r)
           \<longleftrightarrow> (\<exists>j. k \<le> j \<and> seen_by_poll env t0 1000 p j)"
  using assms
proof (induction env pid start k w rule: grace_loop.induct)
  case (1 env pid start k w)
  show ?case
  proof (cases "current_time_ms w - start < 1000")
    case False
    then have out: "\<not> poll_time env t0 k < t0 + 1000"
      using "1.prems" by (simp add: current_time_ms_def)
    have "\<not> seen_by_poll env t0 1000 p j" if "k \<le> j" for j
    proof -
      have "poll_time env t0 k \<le> poll_time env t0 j"
        using poll_time_mono [of env t0 k "j - k"] that by simp
      with out show ?thesis by (simp add: seen_by_poll_def)
    qed
    moreover have "grace_loop env pid start k w = Inr w"
      using False by (rule grace_loop_expired)
    ultimately show ?thesis by auto
  next
    case True
    then have inw: "poll_time env t0 k < t0 + 1000"
      using "1.prems" by (simp add: current_time_ms_def)
    show ?thesis
    proof (cases "alive (clock w) p")
      case False
      then have "seen_by_poll env t0 1000 p k"
        using inw "1.prems" by (simp add: seen_by_poll_def)
      moreover have "\<exists>r. grace_loop env pid start k w = Inl r"
        using grace_loop_reaped [OF True, of pid _ "dies_with p" env k]
          False nohang_known [OF "1.prems"(1)]
        by auto
      ultimately show ?thesis by auto
    next
      case alive: True
      let ?w1 = "w\<lparr>calls := calls w @ [SysWaitpid pid True]\<rparr>"
      let ?w2 = "sys_usleep 10000 (oversleep env k) ?w1"
      have nh: "sys_waitpid_nohang pid w = (?w1, StillRunning)"
        using alive nohang_known [OF "1.prems"(1)] by simp
      have step: "grace_loop env pid start k w = grace_loop env pid start (Suc k) ?w2"
        using grace_loop_again [OF True nh] by simp
      have p2: "map_of (procs ?w2) pid = Some p"
        using "1.prems"(1) by (simp add: sys_usleep_def)
      have c2: "clock ?w2 = poll_time env t0 (Suc k)"
        using "1.prems"(2) by (simp add: sys_usleep_def)
      have IH: "(\<exists>r. grace_loop env pid start (Suc k) ?w2 = Inl r)
                  \<longleftrightarrow> (\<exists>j. Suc k \<le> j \<and> seen_by_poll env t0 1000 p j)"
        using "1.IH"(2) [OF True nh [symmetric] refl p2 c2 "1.prems"(3)] by simp
      have notk: "\<not> seen_by_poll env t0 1000 p k"
        using alive "1.prems"(2) by (simp add: seen_by_poll_def)
      have "(\<exists>j. Suc k \<le> j \<and> seen_by_poll env t0 1000 p j)
              \<longleftrightarrow> (\<exists>j. k \<le> j \<and> seen_by_poll env t0 1000 p j)"
        using notk by (metis Suc_leD Suc_leI le_neq_implies_less)
      with IH step show ?thesis by simp
    qed
  qed
qed

lemma grace_loop_deadline:
  "grace_loop env pid start k w = Inr w' \<Longrightarrow>
     procs w' = procs w \<and> open_fds w' = open_fds w \<and> reaped w' = reaped w \<and>
     \<not> current_time_ms w' - start < 1000"
proof (induction env pid start k w rule: grace_loop.induct)
  case (1 env pid start k w)
  show ?case
  proof (cases "current_time_ms w - start < 1000")
    case False
    then have "w' = w" using grace_loop_expired [OF False] "1.prems" by simp
    with False show ?thesis by simp
  next
    case True
    obtain w1 r where nh: "sys_waitpid_nohang pid w = (w1, r)"
      by (cases "sys_waitpid_nohang pid w")
    have nr: "\<forall>st. r \<noteq> Reaped st"
    proof (intro allI notI)
      fix st assume "r = Reaped st"
      then have "\<exists>x. grace_loop env pid start k w = Inl x"
        using grace_loop_reaped [OF True, of pid w1 st] nh by auto
      with "1.prems" show False by simp
    qed
    then have w1: "w1 = w\<lparr>calls := calls w @ [SysWaitpid pid True]\<rparr>"
      using nh nohang_not_reaped by blast
    let ?w2 = "sys_usleep 10000 (oversleep env k) w1"
    have step: "grace_loop env pid start (Suc k) ?w2 = Inr w'"
      using grace_loop_again [OF True nh nr] "1.prems" by simp
    have r: "r = WaitError \<or> r = StillRunning" using nr by (cases r) auto
    have "procs w' = procs ?w2 \<and> open_fds w' = open_fds ?w2 \<and>
          reaped w' = reaped ?w2 \<and> \<not> current_time_ms w' - start < 1000"
      using "1.IH" True nh [symmetric] r step by blast
    then show ?thesis by (simp add: w1 sys_usleep_def)
  qed
qed

lemma grace_loop_return:
  assumes "map_of (procs w) pid = Some p"
    and "grace_loop env pid start k w = Inl (r, w')"
  shows "r = 100 \<and> procs w' = remove_proc pid (procs w) \<and> open_fds w' = open_fds w \<and>
         reaped w' = reaped w @ [(pid, dies_with p)]"
  using assms
proof (induction env pid start k w rule: grace_loop.induct)
  case (1 env pid start k w)
  have True: "current_time_ms w - start < 1000"
  proof (rule ccontr)
    assume "\<not> current_time_ms w - start < 1000"
    from grace_loop_expired [OF this, of env pid k] "1.prems"(2)
    show False by simp
  qed
  show ?case
  proof (cases "alive (clock w) p")
    case False
    let ?w1 = "w\<lparr>procs := remove_proc pid (procs w),
                  reaped := reaped w @ [(pid, dies_with p)],
                  calls := calls w @ [SysWaitpid pid True]\<rparr>"
    have nh: "sys_waitpid_nohang pid w = (?w1, Reaped (dies_with p))"
      using False nohang_known [OF "1.prems"(1)] by simp
    from grace_loop_reaped [OF True nh, of env k] "1.prems"(2)
    have "r = 100" "w' = ?w1" by simp_all
    then show ?thesis by simp
  next
    case alive: True
    let ?w1 = "w\<lparr>calls := calls w @ [SysWaitpid pid True]\<rparr>"
    let ?w2 = "sys_usleep 10000 (oversleep env k) ?w1"
    have nh: "sys_waitpid_nohang pid w = (?w1, StillRunning)"
      using alive nohang_known [OF "1.prems"(1)] by simp
    have step: "grace_loop env pid start (Suc k) ?w2 = Inl (r, w')"
      using grace_loop_again [OF True nh] "1.prems"(2) by simp
    have a: "map_of (procs ?w2) pid = Some p"
      using "1.prems" by (simp_all add: sys_usleep_def)
    have "r = 100 \<and> procs w' = remove_proc pid (procs ?w2) \<and> open_fds w' = open_fds ?w2 \<and>
          reaped w' = reaped ?w2 @ [(pid, dies_with p)]"
      using "1.IH" True nh [symmetric] a step by blast
    then show ?thesis by (simp add: sys_usleep_def)
  qed
qed

text \<open>The state in which the probe starts polling.\<close>

lemma check_robustness_spawn:
  assumes "\<not> fork_fails env"
  shows "\<exists>w3. check_robustness env w =
           (case grace_loop env (child_pid w) (int (probe_start env w)) 0 w3 of
              Inl r \<Rightarrow> Some r
            | Inr w4 \<Rightarrow>
                (case sys_waitpid_block (child_pid w)
                        (sys_kill (child_pid w) SIGKILL w4) of
                   None \<Rightarrow> None
                 | Some (w5, r) \<Rightarrow> Some (0, w5)))
         \<and> clock w3 = probe_start env w
         \<and> open_fds w3 = open_fds w
         \<and> procs w3 = (child_pid w, probed env w) # procs w
         \<and> reaped w3 = reaped w
         \<and> calls w3 = calls w @ [SysFork, SysUsleep ROBUSTNESS_SIGINT_WAIT_US,
                                  SysKill (child_pid w) SIGINT]"
proof -
  let ?pid = "fresh (map fst (procs w))"
  let ?child = "probe_child env (clock w)"
  let ?w1 = "w\<lparr>procs := (?pid, ?child) # procs w, calls := calls w @ [SysFork]\<rparr>"
  let ?w2 = "sys_usleep ROBUSTNESS_SIGINT_WAIT_US (settle_oversleep env) ?w1"
  let ?w3 = "sys_kill ?pid SIGINT ?w2"
  have op: "out_pipe ?child = None" by (simp add: probe_child_def Let_def)
  have f: "sys_fork (fork_fails env) ?child w = (?w1, Some ?pid)"
    using assms op by (simp add: sys_fork_def Let_def)
  have c2: "clock ?w2 = probe_start env w"
    by (simp add: sys_usleep_def probe_start_def)
  have m: "map_of (procs ?w2) ?pid = Some ?child" by (simp add: sys_usleep_def)
  have w3: "?w3 = ?w2\<lparr>procs := (?pid, probed env w) # procs w,
                       calls := calls ?w2 @ [SysKill ?pid SIGINT]\<rparr>"
  proof (cases "alive (probe_start env w) ?child")
    case False
    then show ?thesis
      using m c2 by (simp add: sys_kill_def probed_def Let_def sys_usleep_def)
  next
    case True
    have ne: "SIGINT \<noteq> SIGKILL" by (simp add: SIGINT_def SIGKILL_def)
    have pr: "procs ?w2 = (?pid, ?child) # procs w" by (simp add: sys_usleep_def)
    show ?thesis
      unfolding sys_kill_def m c2 option.case pr
      using True ne
      by (auto simp: probed_def Let_def update_proc_fresh sys_usleep_def split: option.splits)
  qed
  have run: "check_robustness env w =
           (case grace_loop env ?pid (int (probe_start env w)) 0 ?w3 of
              Inl r \<Rightarrow> Some r
            | Inr w4 \<Rightarrow>
                (case sys_waitpid_block ?pid (sys_kill ?pid SIGKILL w4) of
                   None \<Rightarrow> None
                 | Some (w5, r) \<Rightarrow> Some (0, w5)))"
    unfolding check_robustness_def f
    apply (simp only: prod.case option.case Let_def)
    apply (simp add: current_time_ms_def w3 c2)
    done
  have "clock ?w3 = probe_start env w" by (subst w3) (simp add: c2)
  moreover have "open_fds ?w3 = open_fds w" by (subst w3) (simp add: sys_usleep_def)
  moreover have "procs ?w3 = (?pid, probed env w) # procs w" by (subst w3) simp
  moreover have "reaped ?w3 = reaped w" by (subst w3) (simp add: sys_usleep_def)
  moreover have "calls ?w3 = calls w @ [SysFork, SysUsleep ROBUSTNESS_SIGINT_WAIT_US,
                                  SysKill ?pid SIGINT]"
    by (subst w3) (simp add: sys_usleep_def)
  ultimately show ?thesis
    unfolding child_pid_def using run by blast
qed

section \<open>run\_test\_process: outcome, deadline and descriptors\<close>

lemma run_test_process_pipe1_fails:
  "pipe1_fails env \<Longrightarrow>
     run_test_process env inp buf buffer_size w = Some (- 1, buf, w\<lparr>calls := calls w @ [SysPipe]\<rparr>)"
  by (simp add: run_test_process_def sys_pipe_def)

lemma run_test_process_pipe2_fails:
  "\<not> pipe1_fails env \<Longrightarrow> pipe2_fails env \<Longrightarrow>
     run_test_process env inp buf buffer_size w =
       Some (- 1, buf, w\<lparr>open_fds := Suc (fresh (open_fds w)) # fresh (open_fds w) # open_fds w,
                          calls := calls w @ [SysPipe, SysPipe]\<rparr>)"
  by (simp add: run_test_process_def sys_pipe_def Let_def)

lemma run_test_process_fork_fails:
  "\<not> pipe1_fails env \<Longrightarrow> \<not> pipe2_fails env \<Longrightarrow> fork_fails env \<Longrightarrow>
     run_test_process env inp buf buffer_size w =
       Some (- 1, buf,
             w\<lparr>open_fds := Suc (stdout_fd w) # stdout_fd w
                            # Suc (fresh (open_fds w)) # fresh (open_fds w) # open_fds w,
               calls := calls w @ [SysPipe, SysPipe, SysFork]\<rparr>)"
  by (simp add: run_test_process_def sys_pipe_def sys_fork_def Let_def stdout_fd_def)

text \<open>When a call does not return, and what it returns when it does.\<close>

lemma run_test_process_none_iff:
  "run_test_process env inp buf buffer_size w = None \<longleftrightarrow>
     \<not> pipe1_fails env \<and> \<not> pipe2_fails env \<and> \<not> fork_fails env \<and>
     (inp \<noteq> [] \<and> reader_gone env inp \<or>
      (\<exists>k. seen_by_poll env (clock w) 5000 (spawned env inp w) k) \<and>
      dies_with (spawned env inp w) = Exited 0 \<and> piped (spawned env inp w) = [] \<and>
      unat (buffer_size - 1) \<noteq> 0 \<and> writer_stays env inp)"
proof (cases "\<not> pipe1_fails env \<and> \<not> pipe2_fails env \<and> \<not> fork_fails env")
  case False
  then consider "pipe1_fails env" | "\<not> pipe1_fails env" "pipe2_fails env"
    | "\<not> pipe1_fails env" "\<not> pipe2_fails env" "fork_fails env" by blast
  then show ?thesis
  proof cases
    case 1
    then show ?thesis by (simp add: run_test_process_pipe1_fails)
  next
    case 2
    then show ?thesis by (simp add: run_test_process_pipe2_fails)
  next
    case 3
    then show ?thesis by (simp add: run_test_process_fork_fails)
  qed
next
  case ok: True
  then have o: "\<not> pipe1_fails env" "\<not> pipe2_fails env" "\<not> fork_fails env" by simp_all
  show ?thesis
  proof (cases "inp \<noteq> [] \<and> reader_gone env inp")
    case True
    then show ?thesis using run_test_process_sigpipe [OF o] ok by simp
  next
    case wr: False
    then have wr': "inp = [] \<or> \<not> reader_gone env inp" by blast
    show ?thesis
    proof (cases "\<exists>k. seen_by_poll env (clock w) 5000 (spawned env inp w) k")
      case True
      then obtain k where k: "seen_by_poll env (clock w) 5000 (spawned env inp w) k" ..
      show ?thesis
      proof (cases "dies_with (spawned env inp w) = Exited 0 \<and>
                    piped (spawned env inp w) = [] \<and>
                    unat (buffer_size - 1) \<noteq> 0 \<and> writer_stays env inp")
        case bl: True
        then have "run_test_process env inp buf buffer_size w = None"
          using run_test_process_blocked [OF o wr' k] by blast
        with ok bl True show ?thesis by simp
      next
        case nb: False
        from run_test_process_seen [OF o wr' k nb, of buf]
        have "run_test_process env inp buf buffer_size w \<noteq> None" by auto
        with wr nb show ?thesis by blast
      qed
    next
      case False
      then have "\<forall>k. \<not> seen_by_poll env (clock w) 5000 (spawned env inp w) k" by blast
      from run_test_process_unseen [OF o wr' this, of buf buffer_size]
      have "run_test_process env inp buf buffer_size w \<noteq> None" by auto
      with wr False show ?thesis by blast
    qed
  qed
qed

lemma run_test_process_returns:
  assumes "inp = [] \<or> \<not> reader_gone env inp" and "\<not> writer_stays env inp"
  shows "\<exists>r b w'. run_test_process env inp buf buffer_size w = Some (r, b, w')"
proof -
  have "run_test_process env inp buf buffer_size w \<noteq> None"
    using assms by (auto simp: run_test_process_none_iff)
  then show ?thesis by (cases "run_test_process env inp buf buffer_size w") auto
qed

lemma run_test_process_cases:
  assumes "run_test_process env inp buf buffer_size w = Some (r, b, w')"
  shows "(r = 0 \<longleftrightarrow> \<not> pipe1_fails env \<and> \<not> pipe2_fails env \<and> \<not> fork_fails env \<and>
                dies_with (spawned env inp w) = Exited 0 \<and>
                (\<exists>k. seen_by_poll env (clock w) 5000 (spawned env inp w) k)) \<and>
     (r = 0 \<longrightarrow> b = store_output buf
                       (take (unat (buffer_size - 1)) (piped (spawned env inp w)))) \<and>
     (r \<noteq> 0 \<longrightarrow> r = - 1 \<and> b = buf)"
proof (cases "\<not> pipe1_fails env \<and> \<not> pipe2_fails env \<and> \<not> fork_fails env")
  case False
  then consider "pipe1_fails env" | "\<not> pipe1_fails env" "pipe2_fails env"
    | "\<not> pipe1_fails env" "\<not> pipe2_fails env" "fork_fails env" by blast
  then show ?thesis
  proof cases
    case 1
    then show ?thesis using assms by (simp add: run_test_process_pipe1_fails)
  next
    case 2
    then show ?thesis using assms by (simp add: run_test_process_pipe2_fails)
  next
    case 3
    then show ?thesis using assms by (simp add: run_test_process_fork_fails)
  qed
next
  case ok: True
  then have o: "\<not> pipe1_fails env" "\<not> pipe2_fails env" "\<not> fork_fails env" by simp_all
  have nn: "run_test_process env inp buf buffer_size w \<noteq> None" using assms by simp
  have wr: "inp = [] \<or> \<not> reader_gone env inp"
    using nn ok unfolding run_test_process_none_iff by blast
  show ?thesis
  proof (cases "\<exists>k. seen_by_poll env (clock w) 5000 (spawned env inp w) k")
    case True
    then obtain k where k: "seen_by_poll env (clock w) 5000 (spawned env inp w) k" ..
    have nb: "\<not> (dies_with (spawned env inp w) = Exited 0 \<and>
                 piped (spawned env inp w) = [] \<and>
                 unat (buffer_size - 1) \<noteq> 0 \<and> writer_stays env inp)"
      using nn ok True unfolding run_test_process_none_iff by blast
    from run_test_process_seen [OF o wr k nb, of buf] assms ok True
    show ?thesis by (auto split: if_splits)
  next
    case False
    then have "\<forall>k. \<not> seen_by_poll env (clock w) 5000 (spawned env inp w) k" by blast
    from run_test_process_unseen [OF o wr this, of buf buffer_size] assms ok False
    show ?thesis by auto
  qed
qed

lemma store_output_shape:
  assumes "length bytes < length buf"
  shows "take (length bytes) (store_output buf bytes) = bytes"
    and "store_output buf bytes ! length bytes = NUL"
    and "length (store_output buf bytes) = length buf"
  using assms by (simp_all add: store_output_def nth_list_update)

lemma unat_pred: "(n :: 64 word) \<noteq> 0 \<Longrightarrow> unat (n - 1) = unat n - 1"
  by (simp add: unat_minus_one)

lemma spawned_exit_zero:
  "dies_with (spawned env inp w) = Exited 0 \<Longrightarrow>
     \<not> exec_fails env \<and> piped (spawned env inp w) = written (artifact env inp)"
  by (auto simp: spawned_def test_child_def EXEC_FAILURE_EXIT_CODE_def Let_def split: if_splits)

lemma spawned_exec_fails:
  "exec_fails env \<Longrightarrow> dies_with (spawned env inp w) = Exited EXEC_FAILURE_EXIT_CODE"
  by (simp add: spawned_def test_child_def)

text \<open>
  Claim C1, amended. A call with a buffer of \<open>buffer_size > 0\<close> bytes returns whenever
  a process still holds the read end of the input pipe when the parent writes the
  input (or there is no input to write) and the write end of the output pipe does not
  stay open for ever. A call that returns, returns 0 exactly when both pipes and the
  fork succeeded and one of the polls made before the 5000 ms deadline found the child
  terminated with exit status 0. Then the buffer holds the first \<open>n\<close> bytes the child
  wrote to its output and error streams, \<open>n\<close> being at most \<open>buffer_size - 1\<close>,
  followed by \<open>NUL\<close>. In every other case the call returns -1 and leaves the buffer as
  it was. When \<open>execl\<close> fails the child exits with 127 and a call that returns,
  returns -1.
\<close>

theorem run_test_process_classification:
  assumes "buffer_size \<noteq> 0" and "unat buffer_size \<le> length buf"
  shows "((inp = [] \<or> \<not> reader_gone env inp) \<and> \<not> writer_stays env inp \<longrightarrow>
            (\<exists>r b w'. run_test_process env inp buf buffer_size w = Some (r, b, w'))) \<and>
         (\<forall>r b w'. run_test_process env inp buf buffer_size w = Some (r, b, w') \<longrightarrow>
            (r = 0 \<longleftrightarrow> \<not> pipe1_fails env \<and> \<not> pipe2_fails env \<and> \<not> fork_fails env \<and>
                       dies_with (spawned env inp w) = Exited 0 \<and>
                       (\<exists>k. seen_by_poll env (clock w) 5000 (spawned env inp w) k)) \<and>
            (r = 0 \<longrightarrow>
               (let n = min (unat buffer_size - 1) (length (written (artifact env inp)))
                in take n b = take n (written (artifact env inp)) \<and> b ! n = NUL \<and>
                   length b = length buf)) \<and>
            (r \<noteq> 0 \<longrightarrow> r = - 1 \<and> b = buf) \<and>
            (exec_fails env \<longrightarrow>
               dies_with (spawned env inp w) = Exited EXEC_FAILURE_EXIT_CODE \<and> r = - 1))"
proof -
  let ?p = "spawned env inp w"
  have returns: "(inp = [] \<or> \<not> reader_gone env inp) \<and> \<not> writer_stays env inp \<longrightarrow>
            (\<exists>r b w'. run_test_process env inp buf buffer_size w = Some (r, b, w'))"
    using run_test_process_returns by blast
  have result: "(r = 0 \<longleftrightarrow> \<not> pipe1_fails env \<and> \<not> pipe2_fails env \<and> \<not> fork_fails env \<and>
                       dies_with ?p = Exited 0 \<and>
                       (\<exists>k. seen_by_poll env (clock w) 5000 ?p k)) \<and>
            (r = 0 \<longrightarrow>
               (let n = min (unat buffer_size - 1) (length (written (artifact env inp)))
                in take n b = take n (written (artifact env inp)) \<and> b ! n = NUL \<and>
                   length b = length buf)) \<and>
            (r \<noteq> 0 \<longrightarrow> r = - 1 \<and> b = buf) \<and>
            (exec_fails env \<longrightarrow>
               dies_with ?p = Exited EXEC_FAILURE_EXIT_CODE \<and> r = - 1)"
    if run: "run_test_process env inp buf buffer_size w = Some (r, b, w')" for r b w'
  proof -
  from run_test_process_cases [OF run]
  have iff: "r = 0 \<longleftrightarrow> \<not> pipe1_fails env \<and> \<not> pipe2_fails env \<and> \<not> fork_fails env \<and>
                dies_with ?p = Exited 0 \<and> (\<exists>k. seen_by_poll env (clock w) 5000 ?p k)"
    and ok: "r = 0 \<longrightarrow> b = store_output buf (take (unat (buffer_size - 1)) (piped ?p))"
    and bad: "r \<noteq> 0 \<longrightarrow> r = - 1 \<and> b = buf"
    by blast+
  have out: "let n = min (unat buffer_size - 1) (length (written (artifact env inp)))
         in take n b = take n (written (artifact env inp)) \<and> b ! n = NUL \<and>
            length b = length buf" if "r = 0"
  proof -
    let ?bytes = "take (unat buffer_size - 1) (written (artifact env inp))"
    have "dies_with ?p = Exited 0" using that iff by blast
    then have "piped ?p = written (artifact env inp)" using spawned_exit_zero by blast
    then have b: "b = store_output buf ?bytes"
      using ok that assms(1) by (simp add: unat_pred)
    have pos: "0 < unat buffer_size" using assms(1) by (simp add: unat_gt_0)
    have len: "length ?bytes = min (unat buffer_size - 1) (length (written (artifact env inp)))"
      by simp
    have "length ?bytes < length buf" using assms(2) pos by simp
    moreover have "?bytes = take (length ?bytes) (written (artifact env inp))"
      by (simp add: min_def)
    ultimately show ?thesis
      unfolding Let_def b len [symmetric] using store_output_shape [of ?bytes buf]
      by metis
  qed
  have ex: "dies_with ?p = Exited EXEC_FAILURE_EXIT_CODE \<and> r = - 1" if "exec_fails env"
  proof -
    have d: "dies_with ?p = Exited EXEC_FAILURE_EXIT_CODE"
      using that by (rule spawned_exec_fails)
    then have "dies_with ?p \<noteq> Exited 0" by (simp add: EXEC_FAILURE_EXIT_CODE_def)
    then have "r \<noteq> 0" using iff by blast
    with bad d show ?thesis by blast
  qed
  from iff out bad ex show ?thesis by blast
  qed
  from returns result show ?thesis by blast
qed


lemma poll_time_exact: "\<forall>j. oversleep env j = 0 \<Longrightarrow> poll_time env t0 k = t0 + 10 * k"
  by (induction k) simp_all

lemma calm_oversleep: "oversleep calm j = 0" "oversleep late j = 0" "oversleep stuck j = 0"
  "oversleep no_exec j = 0" "oversleep orphaning j = 0"
  by (simp_all add: calm_def late_def stuck_def no_exec_def orphaning_def)

lemma boot_ids: "child_pid boot = 1" "stdout_fd boot = 5" "clock boot = 0"
  "reaped boot = []" "open_fds boot = [0, 1, 2]" "procs boot = []"
  by (simp_all add: child_pid_def stdout_fd_def boot_def fresh_def)

lemma never_seen:
  "\<forall>t. dies_at p = Some t \<longrightarrow> t0 + n \<le> t \<Longrightarrow> \<not> seen_by_poll env t0 n p k"
  by (auto simp: seen_by_poll_def alive_def split: option.splits)

lemma spawned_late:
  "dies_at (spawned late inp boot) = Some 4995" "dies_with (spawned late inp boot) = Exited 0"
  by (simp_all add: spawned_def test_child_def late_def calm_def late_artifact_def boot_def)

lemma late_unseen: "\<not> seen_by_poll late (clock boot) 5000 (spawned late inp boot) k"
proof -
  have "poll_time late 0 k = 10 * k"
    using poll_time_exact [of late 0 k] by (simp add: calm_oversleep)
  then show ?thesis
    by (simp add: seen_by_poll_def alive_def spawned_late boot_ids)
qed

lemma late_spawns: "\<not> pipe1_fails late" "\<not> pipe2_fails late" "\<not> fork_fails late"
  "inp = [] \<or> \<not> reader_gone late inp"
  by (simp_all add: late_def calm_def reader_gone_def late_artifact_def)

lemma calm_spawns: "\<not> pipe1_fails calm" "\<not> pipe2_fails calm" "\<not> fork_fails calm"
  "inp = [] \<or> \<not> reader_gone calm inp" "\<not> writer_stays calm inp"
  by (simp_all add: calm_def reader_gone_def writer_stays_def prompt_artifact_def)

lemma spawned_calm:
  "dies_at (spawned calm inp w) = Some (clock w + 1)" "dies_with (spawned calm inp w) = Exited 0"
  "piped (spawned calm inp w) = ''5'' @ [CHR 0x0A]"
  by (simp_all add: spawned_def test_child_def calm_def prompt_artifact_def)

lemma calm_seen: "seen_by_poll calm (clock w) 5000 (spawned calm inp w) 1"
  by (simp add: seen_by_poll_def alive_def spawned_calm calm_oversleep)

text \<open>
  Claim C1, as stated, fails: a child that exits with status 0 after the last poll and
  before the deadline is reaped with that status by the blocking \<open>waitpid\<close>, and the
  call reports failure. Here the child exits after 4995 ms; the polls are made at 0,
  10, ..., 4990 ms.
\<close>

theorem exit_zero_after_last_poll_fails:
  "run_summary (run_test_process late ''2 3'' (replicate 8 NUL) 8 boot)
     = Some (- 1, replicate 8 NUL, [(1, Exited 0)])"
proof -
  have "\<forall>k. \<not> seen_by_poll late (clock boot) 5000 (spawned late ''2 3'' boot) k"
    using late_unseen by blast
  from run_test_process_unseen [OF late_spawns this, of "replicate 8 NUL" 8]
  obtain w' t where run: "run_test_process late ''2 3'' (replicate 8 NUL) 8 boot
        = Some (- 1, replicate 8 NUL, w')"
    and t: "clock boot + 5000 \<le> t"
    and r: "reaped w' = reaped boot @ [(child_pid boot,
               if alive t (spawned late ''2 3'' boot) then Signaled SIGKILL
               else dies_with (spawned late ''2 3'' boot))]"
    by blast
  have "\<not> alive t (spawned late ''2 3'' boot)"
    using t by (simp add: alive_def spawned_late boot_ids)
  then have "reaped w' = [(1, Exited 0)]"
    using r by (simp add: boot_ids spawned_late)
  then show ?thesis by (simp add: run_summary_def run)
qed

theorem run_test_process_classification_witness:
  "(8 :: 64 word) \<noteq> 0 \<and> unat (8 :: 64 word) \<le> length (replicate 8 NUL) \<and>
   \<not> reader_gone calm ''2 3'' \<and> \<not> writer_stays calm ''2 3'' \<and>
   (\<exists>b w'. run_test_process calm ''2 3'' (replicate 8 NUL) 8 boot = Some (0, b, w') \<and>
            take 2 b = ''5'' @ [CHR 0x0A] \<and> b ! 2 = NUL \<and> length b = 8)"
proof -
  have h1: "(8 :: 64 word) \<noteq> 0" by simp
  have h2: "unat (8 :: 64 word) \<le> length (replicate 8 NUL)" by simp
  have h3: "\<not> reader_gone calm ''2 3''" "\<not> writer_stays calm ''2 3''"
    using calm_spawns(4) [of "''2 3''"] calm_spawns(5) by simp_all
  let ?p = "spawned calm ''2 3'' boot"
  have seen: "seen_by_poll calm (clock boot) 5000 ?p 1" by (rule calm_seen)
  have ok: "\<not> pipe1_fails calm \<and> \<not> pipe2_fails calm \<and> \<not> fork_fails calm"
    by (simp add: calm_def)
  have wr: "written (artifact calm ''2 3'') = ''5'' @ [CHR 0x0A]"
    by (simp add: calm_def prompt_artifact_def)
  note c = run_test_process_classification [OF h1 h2, of "''2 3''" calm boot]
  from c h3 obtain r b w' where
    run: "run_test_process calm ''2 3'' (replicate 8 NUL) 8 boot = Some (r, b, w')"
    by blast
  from c run have iff: "r = 0 \<longleftrightarrow> \<not> pipe1_fails calm \<and> \<not> pipe2_fails calm \<and>
                \<not> fork_fails calm \<and>
                dies_with ?p = Exited 0 \<and> (\<exists>k. seen_by_poll calm (clock boot) 5000 ?p k)"
    and out: "r = 0 \<longrightarrow>
        (let n = min (unat (8 :: 64 word) - 1) (length (written (artifact calm ''2 3'')))
         in take n b = take n (written (artifact calm ''2 3'')) \<and> b ! n = NUL \<and>
            length b = length (replicate 8 NUL))"
    by blast+
  have r: "r = 0" using iff ok spawned_calm(2) seen by blast
  have n: "min (unat (8 :: 64 word) - 1) (length (written (artifact calm ''2 3''))) = 2"
    by (simp add: wr)
  from out r have "take 2 b = ''5'' @ [CHR 0x0A] \<and> b ! 2 = NUL \<and> length b = 8"
    unfolding Let_def n by (simp add: wr)
  with run r h1 h2 h3 show ?thesis by blast
qed

text \<open>
  What the call does at the deadline. If the input was written and the child has not
  terminated 5000 ms after the polling started, the call sends it \<open>SIGKILL\<close>, waits for
  it with a blocking \<open>waitpid\<close>, closes the output pipe and returns -1 with the buffer
  untouched; the child is reaped, and a child that would never have exited is reaped as
  killed by \<open>SIGKILL\<close>.
\<close>

lemma run_test_process_deadline:
  assumes "\<not> pipe1_fails env" "\<not> pipe2_fails env" "\<not> fork_fails env"
    and "inp = [] \<or> \<not> reader_gone env inp"
    and "\<forall>t. dies_at (spawned env inp w) = Some t \<longrightarrow> clock w + 5000 \<le> t"
  shows "\<exists>w' st pre. run_test_process env inp buf buffer_size w = Some (- 1, buf, w') \<and>
         calls w' = pre @ [SysKill (child_pid w) SIGKILL, SysWaitpid (child_pid w) False,
                           SysClose (stdout_fd w)] \<and>
         reaped w' = reaped w @ [(child_pid w, st)] \<and>
         (dies_at (spawned env inp w) = None \<longrightarrow> st = Signaled SIGKILL) \<and>
         procs w' = procs w"
proof -
  let ?p = "spawned env inp w"
  have "\<forall>k. \<not> seen_by_poll env (clock w) 5000 ?p k"
    using assms(5) never_seen by blast
  from run_test_process_unseen [OF assms(1-4) this, of buf buffer_size]
  obtain w' t pre where run: "run_test_process env inp buf buffer_size w = Some (- 1, buf, w')"
    and pr: "procs w' = procs w"
    and r: "reaped w' = reaped w @ [(child_pid w,
               if alive t ?p then Signaled SIGKILL else dies_with ?p)]"
    and c: "calls w' = pre @ [SysKill (child_pid w) SIGKILL,
                     SysWaitpid (child_pid w) False, SysClose (stdout_fd w)]"
    by blast
  define st where "st = (if alive t ?p then Signaled SIGKILL else dies_with ?p)"
  have k: "dies_at ?p = None \<longrightarrow> st = Signaled SIGKILL"
    by (simp add: alive_def st_def)
  have r': "reaped w' = reaped w @ [(child_pid w, st)]"
    using r by (simp add: st_def)
  show ?thesis
    by (rule exI [of _ w'], rule exI [of _ st], rule exI [of _ pre])
       (simp add: run pr c k r')
qed

lemma stuck_is_killed:
  "run_summary (run_test_process stuck ''2 3'' (replicate 8 NUL) 8 boot)
     = Some (- 1, replicate 8 NUL, [(1, Signaled SIGKILL)])"
proof -
  have ok: "\<not> pipe1_fails stuck" "\<not> pipe2_fails stuck" "\<not> fork_fails stuck"
    "''2 3'' = [] \<or> \<not> reader_gone stuck ''2 3''"
    by (simp_all add: stuck_def calm_def reader_gone_def hung_artifact_def)
  have d: "dies_at (spawned stuck ''2 3'' boot) = None"
    by (simp add: spawned_def test_child_def stuck_def calm_def hung_artifact_def)
  from run_test_process_deadline [OF ok, of boot "replicate 8 NUL" 8] d
  obtain w' st where "run_test_process stuck ''2 3'' (replicate 8 NUL) 8 boot
        = Some (- 1, replicate 8 NUL, w')"
    "reaped w' = reaped boot @ [(child_pid boot, st)]" "st = Signaled SIGKILL"
    by auto
  then show ?thesis by (simp add: run_summary_def boot_ids)
qed

text \<open>
  A call that does not return because of the write: \<open>execl\<close> fails, the child has
  exited when the parent writes the input, no process holds the read end of the input
  pipe, and the signal raised by the write ends the evaluator.
\<close>

lemma write_after_failed_exec_kills:
  "reader_gone no_exec ''2 3'' \<and>
   run_test_process no_exec ''2 3'' (replicate 8 NUL) 8 boot = None"
proof -
  have ok: "\<not> pipe1_fails no_exec" "\<not> pipe2_fails no_exec" "\<not> fork_fails no_exec"
    "''2 3'' \<noteq> []" "reader_gone no_exec ''2 3''"
    by (simp_all add: no_exec_def calm_def reader_gone_def)
  then have "run_test_process no_exec ''2 3'' (replicate 8 NUL) 8 boot = None"
    by (rule run_test_process_sigpipe)
  with ok(5) show ?thesis by (rule conjI)
qed

text \<open>
  Claim C2 fails on the code. The loop is bounded by the deadline, but the \<open>read\<close>
  inside it is not: it is a blocking read on the output pipe, made when a poll has
  found the child terminated with exit status 0. Here the artifact starts a process in
  the background, prints nothing and exits with 0 after a millisecond; the background
  process keeps the write end of the pipe open, the pipe is empty, and the call never
  returns. Nor does the call return when \<open>execl\<close> has failed and the child is gone
  before the parent writes the input ``2 3'': the write to a pipe that has no reader
  ends the evaluator before the loop is entered.
\<close>

theorem exit_zero_with_pipe_held_open_blocks:
  "dies_at (spawned orphaning ''2 3'' boot) = Some 1 \<and>
   dies_with (spawned orphaning ''2 3'' boot) = Exited 0 \<and>
   \<not> reader_gone orphaning ''2 3'' \<and>
   run_test_process orphaning ''2 3'' (replicate 8 NUL) 8 boot = None \<and>
   reader_gone no_exec ''2 3'' \<and>
   run_test_process no_exec ''2 3'' (replicate 8 NUL) 8 boot = None"
proof -
  let ?p = "spawned orphaning ''2 3'' boot"
  have p: "dies_at ?p = Some 1" "dies_with ?p = Exited 0" "piped ?p = []"
    by (simp_all add: spawned_def test_child_def orphaning_def calm_def daemon_artifact_def
          boot_def)
  have ok: "\<not> pipe1_fails orphaning" "\<not> pipe2_fails orphaning" "\<not> fork_fails orphaning"
    "''2 3'' = [] \<or> \<not> reader_gone orphaning ''2 3''"
    by (simp_all add: orphaning_def calm_def reader_gone_def daemon_artifact_def)
  have seen: "seen_by_poll orphaning (clock boot) 5000 ?p 1"
    by (simp add: seen_by_poll_def alive_def p calm_oversleep boot_ids)
  have st: "writer_stays orphaning ''2 3''"
    by (simp add: writer_stays_def orphaning_def calm_def daemon_artifact_def)
  have n: "unat (8 - 1 :: 64 word) \<noteq> 0" by simp
  from run_test_process_blocked [OF ok seen p(2,3) n st]
  have "run_test_process orphaning ''2 3'' (replicate 8 NUL) 8 boot = None" .
  with p ok(4) write_after_failed_exec_kills show ?thesis by simp
qed

text \<open>
  Claim C3 fails on the code. When \<open>fork\<close> fails after both pipes were created,
  \<open>run_test_process\<close> returns -1 with all four pipe descriptors (3, 4, 5 and 6 here)
  still open.
\<close>

theorem fork_failure_leaves_pipes_open:
  "run_test_process no_fork ''2 3'' (replicate 8 NUL) 8 boot =
     Some (- 1, replicate 8 NUL,
           boot\<lparr>open_fds := [6, 5, 4, 3, 0, 1, 2], calls := [SysPipe, SysPipe, SysFork]\<rparr>)"
proof -
  have "\<not> pipe1_fails no_fork" "\<not> pipe2_fails no_fork" "fork_fails no_fork"
    by (simp_all add: no_fork_def calm_def)
  from run_test_process_fork_fails [OF this, of "''2 3''" "replicate 8 NUL" 8 boot]
  show ?thesis by (simp add: boot_ids) (simp add: boot_def fresh_def)
qed

lemma run_test_process_clean_after_fork:
  assumes "\<not> pipe1_fails env" "\<not> pipe2_fails env" "\<not> fork_fails env"
    and "run_test_process env inp buf buffer_size w = Some (r, b, w')"
  shows "open_fds w' = open_fds w \<and> procs w' = procs w \<and>
         (\<exists>st. reaped w' = reaped w @ [(child_pid w, st)])"
proof -
  have nn: "run_test_process env inp buf buffer_size w \<noteq> None" using assms(4) by simp
  have wr: "inp = [] \<or> \<not> reader_gone env inp"
    using nn assms(1-3) unfolding run_test_process_none_iff by blast
  show ?thesis
  proof (cases "\<exists>k. seen_by_poll env (clock w) 5000 (spawned env inp w) k")
    case True
    then obtain k where k: "seen_by_poll env (clock w) 5000 (spawned env inp w) k" ..
    have nb: "\<not> (dies_with (spawned env inp w) = Exited 0 \<and>
                 piped (spawned env inp w) = [] \<and>
                 unat (buffer_size - 1) \<noteq> 0 \<and> writer_stays env inp)"
      using nn assms(1-3) True unfolding run_test_process_none_iff by blast
    from run_test_process_seen [OF assms(1-3) wr k nb, of buf] assms(4)
    show ?thesis by auto
  next
    case False
    then have "\<forall>k. \<not> seen_by_poll env (clock w) 5000 (spawned env inp w) k" by blast
    from run_test_process_unseen [OF assms(1-3) wr this, of buf buffer_size] assms(4)
    show ?thesis by auto
  qed
qed

section \<open>check\_robustness: the score\<close>

lemma nohang_calls: "calls (fst (sys_waitpid_nohang pid w)) = calls w @ [SysWaitpid pid True]"
  by (simp add: sys_waitpid_nohang_def split: option.splits)

lemma grace_loop_calls:
  "\<exists>post. calls (final (grace_loop env pid start k w)) = calls w @ post"
proof (induction env pid start k w rule: grace_loop.induct)
  case (1 env pid start k w)
  show ?case
  proof (cases "current_time_ms w - start < 1000")
    case False
    then show ?thesis by (simp add: grace_loop_expired final_def)
  next
    case True
    obtain w1 r where nh: "sys_waitpid_nohang pid w = (w1, r)"
      by (cases "sys_waitpid_nohang pid w")
    have c1: "calls w1 = calls w @ [SysWaitpid pid True]"
      using nohang_calls [of pid w] nh by simp
    show ?thesis
    proof (cases "\<exists>st. r = Reaped st")
      case True
      then obtain st where "r = Reaped st" ..
      then show ?thesis
        using grace_loop_reaped [OF \<open>current_time_ms w - start < 1000\<close>, of pid w1 st env k] nh c1
        by (simp add: final_def)
    next
      case False
      then have nr: "\<forall>st. r \<noteq> Reaped st" by blast
      let ?w2 = "sys_usleep 10000 (oversleep env k) w1"
      have r: "r = WaitError \<or> r = StillRunning" using nr by (cases r) auto
      have "\<exists>post. calls (final (grace_loop env pid start (Suc k) ?w2)) = calls ?w2 @ post"
        using "1.IH" True nh [symmetric] r by blast
      then show ?thesis
        using grace_loop_again [OF True nh nr, of env k] c1
        by (auto simp: sys_usleep_def)
    qed
  qed
qed

lemma check_robustness_fork_fails:
  "fork_fails env \<Longrightarrow> check_robustness env w = Some (0, w\<lparr>calls := calls w @ [SysFork]\<rparr>)"
  by (simp add: check_robustness_def sys_fork_def)

lemma check_robustness_seen:
  assumes "\<not> fork_fails env"
    and "seen_by_poll env (probe_start env w) 1000 (probed env w) k"
  shows "\<exists>w' post. check_robustness env w = Some (100, w') \<and>
           open_fds w' = open_fds w \<and> procs w' = procs w \<and>
           reaped w' = reaped w @ [(child_pid w, dies_with (probed env w))] \<and>
           calls w' = calls w @ [SysFork, SysUsleep ROBUSTNESS_SIGINT_WAIT_US,
                                 SysKill (child_pid w) SIGINT] @ post"
proof -
  let ?p = "probed env w"
  from check_robustness_spawn [OF assms(1), of w]
  obtain w3 where run: "check_robustness env w =
           (case grace_loop env (child_pid w) (int (probe_start env w)) 0 w3 of
              Inl r \<Rightarrow> Some r
            | Inr w4 \<Rightarrow>
                (case sys_waitpid_block (child_pid w)
                        (sys_kill (child_pid w) SIGKILL w4) of
                   None \<Rightarrow> None
                 | Some (w5, r) \<Rightarrow> Some (0, w5)))"
    and w3: "clock w3 = probe_start env w" "open_fds w3 = open_fds w"
      "procs w3 = (child_pid w, ?p) # procs w" "reaped w3 = reaped w"
      "calls w3 = calls w @ [SysFork, SysUsleep ROBUSTNESS_SIGINT_WAIT_US,
                             SysKill (child_pid w) SIGINT]"
    by blast
  have m: "map_of (procs w3) (child_pid w) = Some ?p" using w3(3) by simp
  have "\<exists>x. grace_loop env (child_pid w) (int (probe_start env w)) 0 w3 = Inl x"
    using grace_loop_returns_iff [OF m, of env "probe_start env w" 0 "int (probe_start env w)"]
      w3(1) assms(2)
    by auto
  then obtain r w' where l: "grace_loop env (child_pid w) (int (probe_start env w)) 0 w3
                               = Inl (r, w')"
    by (metis surj_pair)
  note res = grace_loop_return [OF m l]
  have "procs w' = procs w"
    using res w3(3) by (simp add: child_pid_def remove_proc_fresh)
  moreover have "check_robustness env w = Some (100, w')"
    using run l res by simp
  moreover obtain post where "calls w' = calls w3 @ post"
    using grace_loop_calls [of env "child_pid w" "int (probe_start env w)" 0 w3] l
    by (auto simp: final_def)
  ultimately show ?thesis using res w3 by auto
qed

lemma check_robustness_unseen:
  assumes "\<not> fork_fails env"
    and "\<forall>k. \<not> seen_by_poll env (probe_start env w) 1000 (probed env w) k"
  shows "\<exists>w' t pre. check_robustness env w = Some (0, w') \<and>
           open_fds w' = open_fds w \<and> procs w' = procs w \<and>
           probe_start env w + 1000 \<le> t \<and>
           reaped w' = reaped w @ [(child_pid w,
               if alive t (probed env w) then Signaled SIGKILL
               else dies_with (probed env w))] \<and>
           calls w' = calls w @ [SysFork, SysUsleep ROBUSTNESS_SIGINT_WAIT_US,
                                 SysKill (child_pid w) SIGINT] @ pre
                      @ [SysKill (child_pid w) SIGKILL, SysWaitpid (child_pid w) False]"
proof -
  let ?p = "probed env w"
  from check_robustness_spawn [OF assms(1), of w]
  obtain w3 where run: "check_robustness env w =
           (case grace_loop env (child_pid w) (int (probe_start env w)) 0 w3 of
              Inl r \<Rightarrow> Some r
            | Inr w4 \<Rightarrow>
                (case sys_waitpid_block (child_pid w)
                        (sys_kill (child_pid w) SIGKILL w4) of
                   None \<Rightarrow> None
                 | Some (w5, r) \<Rightarrow> Some (0, w5)))"
    and w3: "clock w3 = probe_start env w" "open_fds w3 = open_fds w"
      "procs w3 = (child_pid w, ?p) # procs w" "reaped w3 = reaped w"
      "calls w3 = calls w @ [SysFork, SysUsleep ROBUSTNESS_SIGINT_WAIT_US,
                             SysKill (child_pid w) SIGINT]"
    by blast
  have m: "map_of (procs w3) (child_pid w) = Some ?p" using w3(3) by simp
  have "\<not> (\<exists>x. grace_loop env (child_pid w) (int (probe_start env w)) 0 w3 = Inl x)"
    using grace_loop_returns_iff [OF m, of env "probe_start env w" 0 "int (probe_start env w)"]
      w3(1) assms(2)
    by auto
  then obtain w4 where l: "grace_loop env (child_pid w) (int (probe_start env w)) 0 w3 = Inr w4"
    by (metis sum.exhaust)
  note d = grace_loop_deadline [OF l]
  have pr: "procs w4 = (fresh (map fst (procs w)), ?p) # procs w"
    using d w3(3) by (simp add: child_pid_def)
  from kill_and_reap [OF pr]
  obtain w5 where k: "sys_waitpid_block (child_pid w) (sys_kill (child_pid w) SIGKILL w4) =
        Some (w5, Reaped (if alive (clock w4) ?p then Signaled SIGKILL else dies_with ?p))"
    and w5: "procs w5 = procs w" "open_fds w5 = open_fds w4"
      "reaped w5 = reaped w4 @ [(child_pid w,
          if alive (clock w4) ?p then Signaled SIGKILL else dies_with ?p)]"
      "calls w5 = calls w4 @ [SysKill (child_pid w) SIGKILL, SysWaitpid (child_pid w) False]"
    unfolding child_pid_def by blast
  have "check_robustness env w = Some (0, w5)"
    using run l k by simp
  moreover have "open_fds w5 = open_fds w" using w5(2) d w3(2) by simp
  moreover have "probe_start env w + 1000 \<le> clock w4"
    using d by (simp add: current_time_ms_def)
  moreover have "reaped w5 = reaped w @ [(child_pid w,
          if alive (clock w4) ?p then Signaled SIGKILL else dies_with ?p)]"
    using w5(3) d w3(4) by simp
  moreover obtain post where "calls w4 = calls w3 @ post"
    using grace_loop_calls [of env "child_pid w" "int (probe_start env w)" 0 w3] l
    by (auto simp: final_def)
  then have "calls w5 = calls w @ [SysFork, SysUsleep ROBUSTNESS_SIGINT_WAIT_US,
                                 SysKill (child_pid w) SIGINT] @ post
                      @ [SysKill (child_pid w) SIGKILL, SysWaitpid (child_pid w) False]"
    using w5(4) w3(5) by simp
  ultimately show ?thesis using w5(1) by blast
qed

text \<open>
  Claim C7, amended. \<open>check_robustness\<close> always returns, and returns 0 or 100. When
  \<open>fork\<close> fails it returns 0 and there is no child. Otherwise it sleeps 200 ms, sends
  \<open>SIGINT\<close>, and returns 100 exactly when one of its polls, made every 10 ms or more
  while less than 1000 ms have passed since the signal was sent, finds the child
  terminated, be it after the signal or before it; if none does, it sends \<open>SIGKILL\<close>,
  waits for the child with a blocking \<open>waitpid\<close> and returns 0. In both cases the
  child has been reaped.
\<close>

theorem check_robustness_score:
  "\<exists>r w'. check_robustness env w = Some (r, w') \<and> (r = 0 \<or> r = 100) \<and>
     (fork_fails env \<longrightarrow> r = 0 \<and> procs w' = procs w \<and> reaped w' = reaped w) \<and>
     (\<not> fork_fails env \<longrightarrow>
        (r = 100 \<longleftrightarrow>
           (\<exists>k. seen_by_poll env (probe_start env w) 1000 (probed env w) k)) \<and>
        (\<exists>post. calls w' = calls w @ [SysFork, SysUsleep ROBUSTNESS_SIGINT_WAIT_US,
                                        SysKill (child_pid w) SIGINT] @ post \<and>
           (r = 0 \<longrightarrow> (\<exists>mid. post = mid @ [SysKill (child_pid w) SIGKILL,
                                             SysWaitpid (child_pid w) False]))) \<and>
        procs w' = procs w \<and> (\<exists>st. reaped w' = reaped w @ [(child_pid w, st)]))"
proof (cases "fork_fails env")
  case True
  then show ?thesis by (simp add: check_robustness_fork_fails)
next
  case nf: False
  show ?thesis
  proof (cases "\<exists>k. seen_by_poll env (probe_start env w) 1000 (probed env w) k")
    case True
    then obtain k where "seen_by_poll env (probe_start env w) 1000 (probed env w) k" ..
    from check_robustness_seen [OF nf this] obtain w' post where
      "check_robustness env w = Some (100, w')" "procs w' = procs w"
      "reaped w' = reaped w @ [(child_pid w, dies_with (probed env w))]"
      "calls w' = calls w @ [SysFork, SysUsleep ROBUSTNESS_SIGINT_WAIT_US,
                                 SysKill (child_pid w) SIGINT] @ post"
      by blast
    with nf True show ?thesis by simp
  next
    case False
    then have "\<forall>k. \<not> seen_by_poll env (probe_start env w) 1000 (probed env w) k" by blast
    from check_robustness_unseen [OF nf this] obtain w' t pre where
      "check_robustness env w = Some (0, w')" "procs w' = procs w"
      "reaped w' = reaped w @ [(child_pid w,
               if alive t (probed env w) then Signaled SIGKILL
               else dies_with (probed env w))]"
      "calls w' = calls w @ [SysFork, SysUsleep ROBUSTNESS_SIGINT_WAIT_US,
                                 SysKill (child_pid w) SIGINT] @ pre
                      @ [SysKill (child_pid w) SIGKILL, SysWaitpid (child_pid w) False]"
      by blast
    with nf False show ?thesis by simp
  qed
qed

lemma probed_no_exec:
  "dies_at (probed no_exec boot) = Some 0" "probe_start no_exec boot = 200"
  by (simp_all add: probed_def probe_child_def probe_start_def no_exec_def calm_def boot_def
        alive_def ROBUSTNESS_SIGINT_WAIT_US_def Let_def)

lemma probed_late:
  "dies_at (probed late boot) = Some 1195" "probe_start late boot = 200"
  "dies_with (probed late boot) = Exited 0"
  by (simp_all add: probed_def probe_child_def probe_start_def late_def calm_def boot_def
        late_artifact_def alive_def ROBUSTNESS_SIGINT_WAIT_US_def Let_def)

text \<open>
  Claim C7, as stated, fails in both directions. A child whose \<open>execl\<close> fails has
  exited 200 ms before the signal is sent, so it does not terminate in the second
  after the signal, and the score is 100. A child that exits 995 ms after the signal
  does terminate within that second, but after the last poll (polls are made 0, 10,
  ..., 990 ms after the signal), and the score is 0.
\<close>

theorem termination_outside_the_window_scores:
  "map_option fst (check_robustness no_exec boot) = Some 100 \<and>
   \<not> dies_within (probed no_exec boot) (probe_start no_exec boot) 1000 \<and>
   map_option fst (check_robustness late boot) = Some 0 \<and>
   dies_within (probed late boot) (probe_start late boot) 1000"
proof -
  have "seen_by_poll no_exec (probe_start no_exec boot) 1000 (probed no_exec boot) 0"
    by (simp add: seen_by_poll_def alive_def probed_no_exec)
  from check_robustness_seen [OF _ this]
  have a: "map_option fst (check_robustness no_exec boot) = Some 100"
    by (auto simp: no_exec_def calm_def)
  have b: "\<not> dies_within (probed no_exec boot) (probe_start no_exec boot) 1000"
    by (simp add: dies_within_def probed_no_exec)
  have "\<not> seen_by_poll late (probe_start late boot) 1000 (probed late boot) k" for k
  proof -
    have "poll_time late 200 k = 200 + 10 * k"
      using poll_time_exact [of late 200 k] by (simp add: calm_oversleep)
    then show ?thesis
      by (simp add: seen_by_poll_def alive_def probed_late)
  qed
  then have "\<forall>k. \<not> seen_by_poll late (probe_start late boot) 1000 (probed late boot) k"
    by blast
  from check_robustness_unseen [OF _ this]
  have c: "map_option fst (check_robustness late boot) = Some 0"
    by (auto simp: late_def calm_def)
  have d: "dies_within (probed late boot) (probe_start late boot) 1000"
    by (simp add: dies_within_def probed_late)
  from a b c d show ?thesis by blast
qed

theorem check_robustness_score_witness:
  "\<not> fork_fails calm \<and> fork_fails no_fork \<and>
   seen_by_poll calm (probe_start calm boot) 1000 (probed calm boot) 0 \<and>
   map_option fst (check_robustness calm boot) = Some 100 \<and>
   map_option fst (check_robustness no_fork boot) = Some 0"
proof -
  have f: "\<not> fork_fails calm" "fork_fails no_fork" by (simp_all add: calm_def no_fork_def)
  have s: "seen_by_poll calm (probe_start calm boot) 1000 (probed calm boot) 0"
    by (simp add: seen_by_poll_def alive_def probed_def probe_child_def probe_start_def
          calm_def prompt_artifact_def boot_def ROBUSTNESS_SIGINT_WAIT_US_def Let_def)
  from check_robustness_score [of calm boot] f(1) s
  have a: "map_option fst (check_robustness calm boot) = Some 100" by auto
  from check_robustness_score [of no_fork boot] f(2)
  have b: "map_option fst (check_robustness no_fork boot) = Some 0" by auto
  from f s a b show ?thesis by blast
qed

section \<open>Single-precision arithmetic: results that are exact\<close>

lemma nearest_even_int: "nearest_even (of_int n) = n"
  by (simp add: nearest_even_def)

lemma ulp_exponent_le:
  assumes m: "m \<noteq> 0" "\<bar>m\<bar> < 2 ^ 24" and k: "- 149 \<le> k"
  shows "ulp_exponent (of_int m * 2 powr of_int k) \<le> k"
proof -
  let ?x = "of_int m * 2 powr of_int k :: real"
  have pos: "0 < \<bar>?x\<bar>" using m by simp
  have "\<bar>?x\<bar> = \<bar>of_int m\<bar> * 2 powr of_int k" by (simp add: abs_mult)
  also have "\<dots> < 2 ^ 24 * 2 powr of_int k"
  proof -
    have "\<bar>of_int m :: real\<bar> < 2 ^ 24"
      using m(2) by (metis of_int_abs of_int_less_numeral_power_cancel_iff)
    then show ?thesis by simp
  qed
  also have "\<dots> = 2 powr (of_int (24 + k))"
    by (simp add: powr_add powr_realpow [symmetric])
  finally have "\<bar>?x\<bar> < 2 powr (of_int (24 + k))" .
  then have "log 2 \<bar>?x\<bar> < of_int (24 + k)"
    using pos by (simp add: log_less_iff)
  then have "\<lfloor>log 2 \<bar>?x\<bar>\<rfloor> < 24 + k" by linarith
  then show ?thesis using k by (simp add: ulp_exponent_def)
qed

lemma round32_exact:
  assumes m: "\<bar>m\<bar> < 2 ^ 24" and k: "- 149 \<le> k"
  shows "round32 (of_int m * 2 powr of_int k) = of_int m * 2 powr of_int k"
proof (cases "m = 0")
  case True
  then show ?thesis by (simp add: round32_def)
next
  case False
  let ?x = "of_int m * 2 powr of_int k :: real"
  define u where "u = ulp_exponent ?x"
  have u: "u \<le> k" unfolding u_def using False m k by (rule ulp_exponent_le)
  have "?x / 2 powr of_int u = of_int m * 2 powr (of_int (k - u))"
    by (simp add: powr_diff)
  also have "\<dots> = of_int m * 2 ^ nat (k - u)"
    using u by (simp add: powr_realpow [symmetric])
  also have "\<dots> = of_int (m * 2 ^ nat (k - u))" by simp
  finally have q: "?x / 2 powr of_int u = of_int (m * 2 ^ nat (k - u))" .
  have "of_int (nearest_even (?x / 2 powr of_int u)) * 2 powr of_int u
          = ?x / 2 powr of_int u * 2 powr of_int u"
    by (subst q, subst nearest_even_int, subst q) simp
  also have "\<dots> = ?x" by simp
  finally have "of_int (nearest_even (?x / 2 powr of_int u)) * 2 powr of_int u = ?x" .
  moreover have "?x \<noteq> 0" using False by simp
  ultimately show ?thesis unfolding round32_def u_def [symmetric] by simp
qed

text \<open>
  A number with a significand of at most 24 bits and an exponent in range is stored as
  it is.
\<close>

lemma fl_exact:
  assumes m: "\<bar>m\<bar> < 2 ^ 24" and k: "- 149 \<le> k" "k \<le> 104"
  shows "fl (of_int m * 2 powr of_int k) = Finite (of_int m * 2 powr of_int k)"
proof -
  let ?x = "of_int m * 2 powr of_int k :: real"
  have "\<bar>of_int m :: real\<bar> \<le> 2 ^ 24 - 1"
  proof -
    have "\<bar>m\<bar> \<le> 2 ^ 24 - 1" using m by simp
    then have "of_int \<bar>m\<bar> \<le> (of_int (2 ^ 24 - 1) :: real)" by (rule of_int_le_iff [THEN iffD2])
    then show ?thesis by simp
  qed
  moreover have "2 powr of_int k \<le> (2::real) powr of_int 104"
    using k by (simp del: of_int_numeral)
  then have "2 powr of_int k \<le> (2::real) ^ 104" by (simp add: powr_realpow [symmetric])
  ultimately have "\<bar>of_int m :: real\<bar> * 2 powr of_int k \<le> (2 ^ 24 - 1) * 2 ^ 104"
    by (intro mult_mono) simp_all
  then have "\<bar>?x\<bar> \<le> FLT_MAX" by (simp add: abs_mult FLT_MAX_def)
  then show ?thesis using round32_exact [OF m k(1)] by (simp add: fl_def Let_def)
qed

lemma fl_int: "\<bar>n\<bar> < 2 ^ 24 \<Longrightarrow> fl (of_int n) = Finite (of_int n)"
  using fl_exact [of n 0] by simp

lemma fl_small:
  "fl 1 = Finite 1" "fl 2 = Finite 2" "fl 3 = Finite 3" "fl 4 = Finite 4"
  "fl 50 = Finite 50" "fl (- 1) = Finite (- 1)" "fl (1 / 2) = Finite (1 / 2)"
  using fl_int [of 1] fl_int [of 2] fl_int [of 3] fl_int [of 4] fl_int [of 50]
    fl_int [of "- 1"] fl_exact [of 1 "- 1"]
  by (simp_all add: powr_minus)

text \<open>Sums of whole numbers are exact as long as they stay below \<open>2\<^sup>2\<^sup>4\<close>.\<close>

lemma foldl_fadd_whole_numbers:
  "a + sum_list ns < 2 ^ 24 \<Longrightarrow>
     foldl fadd (Finite (real a)) (map (\<lambda>n. Finite (real n)) ns)
       = Finite (real (a + sum_list ns))"
proof (induction ns arbitrary: a)
  case Nil
  then show ?case by simp
next
  case (Cons n ns)
  have "\<bar>int (a + n)\<bar> < 2 ^ 24" using Cons.prems by simp
  from fl_int [OF this] have "fl (real a + real n) = Finite (real (a + n))" by simp
  then have "fadd (Finite (real a)) (Finite (real n)) = Finite (real (a + n))" by simp
  moreover have "a + n + sum_list ns < 2 ^ 24" using Cons.prems by simp
  ultimately show ?case using Cons.IH [of "a + n"] by (simp add: add.assoc)
qed

lemma float_sum_whole_numbers:
  "sum_list ns < 2 ^ 24 \<Longrightarrow>
     float_sum (map (\<lambda>n. Finite (real n)) ns) = Finite (real (sum_list ns))"
  using foldl_fadd_whole_numbers [of 0 ns] by (simp add: float_sum_def zero_cfloat_def)

text \<open>\<open>2\<^sup>1\<^sup>2\<^sup>7\<close> is stored as it is; \<open>2\<^sup>1\<^sup>2\<^sup>8\<close> is beyond \<open>FLT_MAX\<close>.\<close>

lemma fl_two_127: "fl (2 ^ 127) = Finite (2 ^ 127)"
proof -
  have "(2::real) powr 104 = 2 ^ 104" by (simp add: powr_realpow [symmetric] del: powr_numeral)
  then show ?thesis using fl_exact [of "2 ^ 23" 104] by simp
qed

lemma fl_two_128: "fl (2 ^ 128) = PInf"
proof -
  define x :: real where "x = 2 ^ 128"
  have l: "log 2 x = 128" unfolding x_def by (subst log_pow_cancel) simp_all
  have a: "\<bar>x\<bar> = x" "x \<noteq> 0" "0 < x" by (simp_all add: x_def)
  have u: "ulp_exponent x = 105" by (simp add: ulp_exponent_def l a)
  have p: "(2::real) powr 105 = 2 ^ 105" by (simp add: powr_realpow [symmetric] del: powr_numeral)
  have q: "x / 2 ^ 105 = of_int (2 ^ 23)" by (simp add: x_def)
  have "nearest_even (x / 2 ^ 105) = 2 ^ 23" unfolding q by (rule nearest_even_int)
  then have "round32 x = of_int (2 ^ 23) * 2 ^ 105"
    unfolding round32_def u using p a by simp
  then have "round32 x = x" by (simp add: x_def)
  then have "fl x = PInf" using a by (simp add: fl_def Let_def FLT_MAX_def x_def)
  then show ?thesis by (simp add: x_def)
qed

text \<open>
  Results that are rounded: in the range of the normal numbers the last of the 24 bits
  of the significand is the unit; a third is stored as \<open>11184811 / 2\<^sup>2\<^sup>5\<close>, and a
  hundred times that as \<open>8738134 / 2\<^sup>1\<^sup>8\<close>, which is 33.3333358...
\<close>

lemma round32_normal:
  assumes "2 powr of_int e \<le> \<bar>x\<bar>" and "\<bar>x\<bar> < 2 powr of_int (e + 1)" and "- 126 \<le> e"
  shows "round32 x = of_int (nearest_even (x / 2 powr of_int (e - 23))) * 2 powr of_int (e - 23)"
proof -
  have pos: "0 < \<bar>x\<bar>" using assms(1) by (smt (verit) powr_gt_zero)
  have "\<lfloor>log 2 \<bar>x\<bar>\<rfloor> = e"
    using assms(1,2) pos by (simp add: floor_log_eq_powr_iff)
  then have "ulp_exponent x = e - 23" using assms(3) by (simp add: ulp_exponent_def)
  moreover have "x \<noteq> 0" using pos by simp
  ultimately show ?thesis by (simp add: round32_def)
qed

lemma fl_third: "fl (1 / 3) = Finite (11184811 / 33554432)"
proof -
  have "round32 (1 / 3) = of_int (nearest_even ((1 / 3) / 2 powr of_int (- 2 - 23)))
                            * 2 powr of_int (- 2 - 23)"
    by (rule round32_normal) (simp_all add: powr_minus)
  also have "(2::real) powr of_int (- 2 - 23) = 1 / 33554432"
    by (simp add: powr_minus powr_realpow [symmetric] del: powr_numeral)
  also have "nearest_even ((1 / 3) / (1 / 33554432)) = 11184811"
    by (simp add: nearest_even_def Let_def)
  finally have "round32 (1 / 3) = 11184811 / 33554432" by simp
  then show ?thesis by (simp add: fl_def Let_def FLT_MAX_def)
qed

lemma fl_third_times_100: "fl (11184811 / 33554432 * 100) = Finite (4369067 / 131072)"
proof -
  let ?x = "11184811 / 33554432 * 100 :: real"
  have "round32 ?x = of_int (nearest_even (?x / 2 powr of_int (5 - 23))) * 2 powr of_int (5 - 23)"
    by (rule round32_normal) simp_all
  also have "(2::real) powr of_int (5 - 23) = 1 / 262144"
    by (simp add: powr_minus powr_realpow [symmetric] del: powr_numeral)
  also have "nearest_even (?x / (1 / 262144)) = 8738134"
    by (simp add: nearest_even_def Let_def)
  finally have "round32 ?x = 4369067 / 131072" by simp
  then show ?thesis by (simp add: fl_def Let_def FLT_MAX_def)
qed

text \<open>The three quotients used as examples below.\<close>

lemma two_of_four:
  "float_sum [Finite 1, Finite 2, Finite 1] = Finite 4"
  "float_sum [Finite 1, Finite 1] = Finite 2"
  "fmul (fdiv (Finite 2) (Finite 4)) (Finite 100) = Finite 50"
proof -
  show "float_sum [Finite 1, Finite 2, Finite 1] = Finite 4"
    "float_sum [Finite 1, Finite 1] = Finite 2"
    by (simp_all add: float_sum_def zero_cfloat_def fl_small)
  have "fdiv (Finite 2) (Finite 4) = Finite (1 / 2)"
    using fl_small(7) by simp
  moreover have "fmul (Finite (1 / 2)) (Finite 100) = Finite 50"
    using fl_small(5) by simp
  ultimately show "fmul (fdiv (Finite 2) (Finite 4)) (Finite 100) = Finite 50"
    by simp
qed

lemma one_of_three:
  "float_sum [Finite 1, Finite 2] = Finite 3"
  "float_sum [Finite 1] = Finite 1"
  "fmul (fdiv (Finite 1) (Finite 3)) (Finite 100) = Finite (4369067 / 131072)"
proof -
  show "float_sum [Finite 1, Finite 2] = Finite 3" "float_sum [Finite 1] = Finite 1"
    by (simp_all add: float_sum_def zero_cfloat_def fl_small)
  have "fdiv (Finite 1) (Finite 3) = Finite (11184811 / 33554432)"
    using fl_third by simp
  moreover have "fmul (Finite (11184811 / 33554432)) (Finite 100) = Finite (4369067 / 131072)"
    using fl_third_times_100 by simp
  ultimately show "fmul (fdiv (Finite 1) (Finite 3)) (Finite 100) = Finite (4369067 / 131072)"
    by simp
qed

lemma two_of_two_too_large:
  "float_sum [Finite (2 ^ 127), Finite (2 ^ 127)] = PInf"
proof -
  have "(2::real) ^ 127 + 2 ^ 127 = 2 ^ 128" by simp
  then have "fadd (Finite (2 ^ 127)) (Finite (2 ^ 127)) = PInf"
    using fl_two_128 by (simp del: power_numeral)
  moreover have "fadd 0 (Finite (2 ^ 127)) = Finite (2 ^ 127)"
    using fl_two_127 by (simp add: zero_cfloat_def del: power_numeral)
  ultimately show ?thesis by (simp add: float_sum_def del: power_numeral)
qed

section \<open>calculate\_dynamic\_passrate: the two rates\<close>

lemma record_failure_counts:
  "tests_passed (record_failure d m) = tests_passed m"
  "tests_failed (record_failure d m) = tests_failed m"
  by (simp_all add: record_failure_def)

lemma run_one_test_verdict:
  assumes "run_test_process (envs i) (input t) (replicate MAX_OUTPUT_SIZE NUL)
             (of_nat MAX_OUTPUT_SIZE) w = Some (r, b, w')"
  shows "\<exists>m'. run_one_test envs i t (m, tw, pw, w) =
           Some (m', fadd tw (weight t),
                 (if r = 0 \<and> strip_trailing isspace (cstr b) = cstr (expected_output t)
                  then fadd pw (weight t) else pw), w') \<and>
           tests_passed m' = tests_passed m +
             (if r = 0 \<and> strip_trailing isspace (cstr b) = cstr (expected_output t)
              then 1 else 0) \<and>
           tests_failed m' = tests_failed m +
             (if r = 0 \<and> strip_trailing isspace (cstr b) = cstr (expected_output t)
              then 0 else 1)"
  using assms
  by (simp add: run_one_test_def Let_def strcmp_trimmed record_failure_counts)

lemma run_one_test_none:
  "run_test_process (envs i) (input t) (replicate MAX_OUTPUT_SIZE NUL)
     (of_nat MAX_OUTPUT_SIZE) w = None \<Longrightarrow> run_one_test envs i t (m, tw, pw, w) = None"
  by (simp add: run_one_test_def)

lemma run_tests_none:
  "\<not> all_return envs i ts w \<Longrightarrow> run_tests envs i ts (m, tw, pw, w) = None"
proof (induction ts arbitrary: i m tw pw w)
  case Nil
  then show ?case by simp
next
  case (Cons t ts)
  show ?case
  proof (cases "run_test_process (envs i) (input t) (replicate MAX_OUTPUT_SIZE NUL)
                  (of_nat MAX_OUTPUT_SIZE) w")
    case None
    then show ?thesis by (simp add: run_one_test_none)
  next
    case (Some res)
    obtain r b w1 where res: "res = (r, b, w1)" by (cases res)
    have n: "\<not> all_return envs (Suc i) ts w1" using Cons.prems Some res by simp
    from run_one_test_verdict [of envs i t w r b w1 m tw pw] Some res
    obtain m1 tw1 pw1 where "run_one_test envs i t (m, tw, pw, w) = Some (m1, tw1, pw1, w1)"
      by auto
    then show ?thesis using Cons.IH [OF n] by simp
  qed
qed

lemma passed_weights_Cons:
  "passed_weights (t # ts) (v # vs) = (if v then [weight t] else []) @ passed_weights ts vs"
  by (simp add: passed_weights_def)

lemma run_tests_tally:
  "all_return envs i ts w \<Longrightarrow>
   \<exists>m' w'. run_tests envs i ts (m, tw, pw, w) =
       Some (m', foldl fadd tw (map weight ts),
             foldl fadd pw (passed_weights ts (verdicts envs i ts w)), w') \<and>
     length (verdicts envs i ts w) = length ts \<and>
     tests_passed m' = tests_passed m + int (passed_count (verdicts envs i ts w)) \<and>
     tests_failed m' = tests_failed m
        + int (length ts - passed_count (verdicts envs i ts w))"
proof (induction ts arbitrary: i m tw pw w)
  case Nil
  then show ?case by (simp add: passed_weights_def passed_count_def)
next
  case (Cons t ts)
  from Cons.prems
  obtain r b w1 where run: "run_test_process (envs i) (input t) (replicate MAX_OUTPUT_SIZE NUL)
             (of_nat MAX_OUTPUT_SIZE) w = Some (r, b, w1)"
    and rest_ret: "all_return envs (Suc i) ts w1"
    by (auto split: option.splits)
  let ?v = "r = 0 \<and> strip_trailing isspace (cstr b) = cstr (expected_output t)"
  let ?pw1 = "if ?v then fadd pw (weight t) else pw"
  from run_one_test_verdict [of envs i t w r b w1 m tw pw, OF run]
  obtain m1 where one: "run_one_test envs i t (m, tw, pw, w) =
           Some (m1, fadd tw (weight t), ?pw1, w1)"
    and p1: "tests_passed m1 = tests_passed m + (if ?v then 1 else 0)"
    and f1: "tests_failed m1 = tests_failed m + (if ?v then 0 else 1)"
    by blast
  from Cons.IH [OF rest_ret, of m1 "fadd tw (weight t)" ?pw1]
  obtain m' w' where rest: "run_tests envs (Suc i) ts
        (m1, fadd tw (weight t), ?pw1, w1) =
       Some (m', foldl fadd (fadd tw (weight t)) (map weight ts),
             foldl fadd ?pw1 (passed_weights ts (verdicts envs (Suc i) ts w1)), w')"
    and len: "length (verdicts envs (Suc i) ts w1) = length ts"
    and p: "tests_passed m' = tests_passed m1 + int (passed_count (verdicts envs (Suc i) ts w1))"
    and f: "tests_failed m' = tests_failed m1
        + int (length ts - passed_count (verdicts envs (Suc i) ts w1))"
    by blast
  have vs: "verdicts envs i (t # ts) w = ?v # verdicts envs (Suc i) ts w1"
    using run by simp
  have le: "passed_count (verdicts envs (Suc i) ts w1) \<le> length ts"
    using len by (metis length_filter_le passed_count_def)
  have "run_tests envs i (t # ts) (m, tw, pw, w) =
       Some (m', foldl fadd tw (map weight (t # ts)),
             foldl fadd pw (passed_weights (t # ts) (verdicts envs i (t # ts) w)), w')"
    using one rest unfolding vs by (simp add: passed_weights_Cons)
  moreover have "length (verdicts envs i (t # ts) w) = length (t # ts)"
    using len unfolding vs by simp
  moreover have "tests_passed m' = tests_passed m
        + int (passed_count (verdicts envs i (t # ts) w))"
    using p p1 unfolding vs by (simp add: passed_count_def)
  moreover have "tests_failed m' = tests_failed m
        + int (length (t # ts) - passed_count (verdicts envs i (t # ts) w))"
    using f f1 le unfolding vs by (simp add: passed_count_def)
  ultimately show ?case by blast
qed

lemma record_failure_keeps:
  "passrate (record_failure d m) = passrate m"
  "memory_score (record_failure d m) = memory_score m"
  "robustness_score (record_failure d m) = robustness_score m"
  "execution_time_ms (record_failure d m) = execution_time_ms m"
  by (simp_all add: record_failure_def)

lemma run_one_test_keeps:
  "run_one_test envs i t (m, tw, pw, w) = Some (m', tw', pw', w') \<Longrightarrow>
     passrate m' = passrate m \<and> memory_score m' = memory_score m \<and>
     robustness_score m' = robustness_score m \<and>
     execution_time_ms m' = execution_time_ms m"
  by (auto simp: run_one_test_def Let_def record_failure_keeps
           split: option.splits if_splits)

lemma run_tests_keeps:
  "run_tests envs i ts (m, tw, pw, w) = Some (m', tw', pw', w') \<Longrightarrow>
     passrate m' = passrate m \<and> memory_score m' = memory_score m \<and>
     robustness_score m' = robustness_score m \<and>
     execution_time_ms m' = execution_time_ms m"
proof (induction ts arbitrary: i m tw pw w)
  case Nil
  then show ?case by simp
next
  case (Cons t ts)
  from Cons.prems obtain m1 tw1 pw1 w1 where
    one: "run_one_test envs i t (m, tw, pw, w) = Some (m1, tw1, pw1, w1)"
    and rest: "run_tests envs (Suc i) ts (m1, tw1, pw1, w1) = Some (m', tw', pw', w')"
    by (auto split: option.splits)
  from run_one_test_keeps [OF one] Cons.IH [OF rest] show ?case by simp
qed

text \<open>
  The call returns exactly when every run does, and then with these values.
\<close>

lemma calculate_dynamic_passrate_none:
  "\<not> all_return envs 0 (tests suite) w \<Longrightarrow>
     calculate_dynamic_passrate envs suite metrics w = None"
  by (simp add: calculate_dynamic_passrate_def run_tests_none)

lemma calculate_dynamic_passrate_result:
  assumes "all_return envs 0 (tests suite) w"
  shows "\<exists>m w'. calculate_dynamic_passrate envs suite metrics w =
      Some (if num_tests suite > 0
            then real (passed_count (verdicts envs 0 (tests suite) w))
                   / real (num_tests suite) * 100
            else 0, m, w') \<and>
     weighted_score m =
       (if fpos (float_sum (map weight (tests suite)))
        then fmul (fdiv (float_sum (passed_weights (tests suite)
                                      (verdicts envs 0 (tests suite) w)))
                        (float_sum (map weight (tests suite))))
                  (Finite 100)
        else 0) \<and>
     tests_passed m = int (passed_count (verdicts envs 0 (tests suite) w)) \<and>
     tests_failed m = int (num_tests suite - passed_count (verdicts envs 0 (tests suite) w)) \<and>
     passrate m = passrate metrics \<and> memory_score m = memory_score metrics \<and>
     robustness_score m = robustness_score metrics \<and>
     execution_time_ms m = execution_time_ms metrics"
proof -
  let ?m0 = "metrics\<lparr>tests_passed := 0, tests_failed := 0, failed_tests := []\<rparr>"
  let ?vs = "verdicts envs 0 (tests suite) w"
  from run_tests_tally [OF assms, of ?m0 0 0]
  obtain m' w' where run: "run_tests envs 0 (tests suite) (?m0, 0, 0, w) =
       Some (m', float_sum (map weight (tests suite)),
             float_sum (passed_weights (tests suite) ?vs), w')"
    and p0: "tests_passed m' = tests_passed ?m0 + int (passed_count ?vs)"
    and f0: "tests_failed m' = tests_failed ?m0
               + int (length (tests suite) - passed_count ?vs)"
    unfolding float_sum_def by blast
  have p: "tests_passed m' = int (passed_count ?vs)" using p0 by simp
  have f: "tests_failed m' = int (length (tests suite) - passed_count ?vs)"
    using f0 by simp
  have k: "passrate m' = passrate metrics" "memory_score m' = memory_score metrics"
      "robustness_score m' = robustness_score metrics"
      "execution_time_ms m' = execution_time_ms metrics"
    using run_tests_keeps [OF run] by simp_all
  show ?thesis
    unfolding calculate_dynamic_passrate_def run
    using p f k by (simp add: Let_def num_tests_def)
qed

lemma calculate_dynamic_passrate_returns_iff:
  "(\<exists>res. calculate_dynamic_passrate envs suite metrics w = Some res)
     \<longleftrightarrow> all_return envs 0 (tests suite) w"
  using calculate_dynamic_passrate_none [of envs suite w metrics]
    calculate_dynamic_passrate_result [of envs suite w metrics]
  by (cases "all_return envs 0 (tests suite) w") auto

text \<open>
  Every run returns when, in each, the input pipe still has a reader when the input
  is written and the output pipe does not stay open for ever.
\<close>

lemma all_return_tidy:
  assumes "\<forall>i inp. (inp = [] \<or> \<not> reader_gone (envs i) inp) \<and> \<not> writer_stays (envs i) inp"
  shows "all_return envs i ts w"
proof (induction ts arbitrary: i w)
  case Nil
  then show ?case by simp
next
  case (Cons t ts i w)
  from assms have "input t = [] \<or> \<not> reader_gone (envs i) (input t)"
    "\<not> writer_stays (envs i) (input t)" by blast+
  from run_test_process_returns [OF this]
  obtain r b w' where "run_test_process (envs i) (input t) (replicate MAX_OUTPUT_SIZE NUL)
             (of_nat MAX_OUTPUT_SIZE) w = Some (r, b, w')"
    by blast
  then show ?case using Cons.IH by simp
qed

lemma cstr_store_output:
  assumes "length bytes < length buf"
  shows "cstr (store_output buf bytes) = cstr bytes"
proof -
  have eq: "store_output buf bytes = bytes @ NUL # drop (Suc (length bytes)) buf"
    using assms by (simp add: store_output_def list_update_append Cons_nth_drop_Suc [symmetric])
  show ?thesis
  proof (cases "\<forall>c \<in> set bytes. c \<noteq> NUL")
    case True
    then have r: "takeWhile (\<lambda>c. c \<noteq> NUL) bytes = bytes"
      by (simp add: takeWhile_eq_all_conv)
    have l: "takeWhile (\<lambda>c. c \<noteq> NUL) (bytes @ NUL # drop (Suc (length bytes)) buf) = bytes"
      using True by (simp add: takeWhile_append2)
    show ?thesis unfolding eq cstr_def l r ..
  next
    case False
    then show ?thesis unfolding eq cstr_def by (auto simp: takeWhile_append1)
  qed
qed

lemma calm_run:
  "\<exists>b w'. run_test_process calm inp (replicate MAX_OUTPUT_SIZE NUL) (of_nat MAX_OUTPUT_SIZE) w
             = Some (0, b, w') \<and> cstr b = ''5'' @ [CHR 0x0A]"
proof -
  let ?p = "spawned calm inp w"
  have nb: "\<not> (dies_with ?p = Exited 0 \<and> piped ?p = [] \<and>
               unat (of_nat MAX_OUTPUT_SIZE - 1 :: 64 word) \<noteq> 0 \<and> writer_stays calm inp)"
    by (simp add: spawned_calm)
  from run_test_process_seen [OF calm_spawns(1-4) calm_seen nb,
         of "replicate MAX_OUTPUT_SIZE NUL"]
  obtain b w' where run: "run_test_process calm inp (replicate MAX_OUTPUT_SIZE NUL)
        (of_nat MAX_OUTPUT_SIZE) w = Some (0, b, w')"
    and b: "b = store_output (replicate MAX_OUTPUT_SIZE NUL)
                  (take (unat (of_nat MAX_OUTPUT_SIZE - 1 :: 64 word)) (piped ?p))"
    using spawned_calm(2) [of inp w] by auto
  have "unat (of_nat MAX_OUTPUT_SIZE - 1 :: 64 word) = 4095"
    by (simp add: MAX_OUTPUT_SIZE_def)
  then have b': "b = store_output (replicate MAX_OUTPUT_SIZE NUL) (''5'' @ [CHR 0x0A])"
    using b spawned_calm(3) [of inp w] by simp
  have "cstr b = cstr (''5'' @ [CHR 0x0A])"
    unfolding b' by (rule cstr_store_output) (simp add: MAX_OUTPUT_SIZE_def)
  then have "cstr b = ''5'' @ [CHR 0x0A]" by (simp add: cstr_def NUL_def)
  with run show ?thesis by blast
qed

lemma calm_verdict:
  "verdicts (\<lambda>i. calm) i (t # ts) w =
     (cstr (expected_output t) = ''5'') # verdicts (\<lambda>i. calm) (Suc i) ts
        (snd (snd (the (run_test_process calm (input t) (replicate MAX_OUTPUT_SIZE NUL)
                          (of_nat MAX_OUTPUT_SIZE) w))))"
proof -
  from calm_run [of "input t" w] obtain b w' where
    run: "run_test_process calm (input t) (replicate MAX_OUTPUT_SIZE NUL)
            (of_nat MAX_OUTPUT_SIZE) w = Some (0, b, w')"
    and b: "cstr b = ''5'' @ [CHR 0x0A]" by blast
  have "strip_trailing isspace (cstr b) = ''5''"
    unfolding b by (simp add: strip_trailing_def isspace_def)
  then show ?thesis
    by (subst verdicts.simps) (auto simp: run)
qed

lemma calm_all_return: "all_return (\<lambda>i. calm) i ts w"
  by (rule all_return_tidy) (use calm_spawns(4,5) in blast)

lemma always_calm_eq: "always_calm = (\<lambda>i. calm)"
  by (rule ext) (simp add: always_calm_def)

lemma weighted_suite_verdicts:
  "verdicts (\<lambda>i. calm) 0 (tests weighted_suite) w = [True, False, True]"
  by (simp add: weighted_suite_def calm_verdict cstr_def NUL_def del: verdicts.simps(2))

lemma owing_suite_verdicts:
  "verdicts (\<lambda>i. calm) 0 (tests owing_suite) w = [True]"
  by (simp add: owing_suite_def calm_verdict cstr_def NUL_def del: verdicts.simps(2))

lemma thirds_suite_verdicts:
  "verdicts (\<lambda>i. calm) 0 (tests thirds_suite) w = [True, False]"
  by (simp add: thirds_suite_def calm_verdict cstr_def NUL_def del: verdicts.simps(2))

lemma heavy_suite_verdicts:
  "verdicts (\<lambda>i. calm) 0 (tests heavy_suite) w = [True, True]"
  by (simp add: heavy_suite_def calm_verdict cstr_def NUL_def del: verdicts.simps(2))

lemma passed_weights_map:
  "passed_weights ts vs = map fst (filter snd (zip (map weight ts) vs))"
  unfolding passed_weights_def
proof (induction ts arbitrary: vs)
  case Nil
  then show ?case by simp
next
  case (Cons t ts)
  then show ?case by (cases vs) simp_all
qed

text \<open>
  Claim C4, as stated, fails: the guard of the division is \<open>total_weight > 0\<close>, and
  the weights are whatever numbers the test definitions give. With one test of weight
  -1 that passes, the weighted score is 0, where the sum of the weights of the tests
  that passed over the sum of all weights, times 100, is 100.
\<close>

theorem negative_total_weight_scores_zero:
  "map weight (tests owing_suite) = [Finite (- 1)] \<and>
   verdicts always_calm 0 (tests owing_suite) boot = [True] \<and>
   weighted_result (calculate_dynamic_passrate always_calm owing_suite zero_metrics boot)
     = Some 0 \<and>
   stated_weighted_rate [- 1] [True] = 100"
proof -
  have w: "map weight (tests owing_suite) = [Finite (- 1)]"
    by (simp add: owing_suite_def)
  have v: "verdicts always_calm 0 (tests owing_suite) boot = [True]"
    by (simp add: always_calm_eq owing_suite_verdicts)
  have ar: "all_return always_calm 0 (tests owing_suite) boot"
    by (simp add: always_calm_eq calm_all_return)
  from calculate_dynamic_passrate_result [OF ar, of zero_metrics]
  obtain rate m w' where
    run: "calculate_dynamic_passrate always_calm owing_suite zero_metrics boot
            = Some (rate, m, w')"
    and ws: "weighted_score m =
       (if fpos (float_sum (map weight (tests owing_suite)))
        then fmul (fdiv (float_sum (passed_weights (tests owing_suite)
                                      (verdicts always_calm 0 (tests owing_suite) boot)))
                        (float_sum (map weight (tests owing_suite))))
                  (Finite 100)
        else 0)"
    by blast
  have "float_sum [Finite (- 1)] = Finite (- 1)"
    by (simp add: float_sum_def zero_cfloat_def fl_small)
  then have "weighted_score m = 0" using ws unfolding w by simp
  then have r: "weighted_result
                  (calculate_dynamic_passrate always_calm owing_suite zero_metrics boot)
                = Some 0"
    by (simp add: weighted_result_def run)
  have s: "stated_weighted_rate [- 1] [True] = 100"
    by (simp add: stated_weighted_rate_def)
  from w v r s show ?thesis by blast
qed

text \<open>
  Claim C4, amended. \<open>calculate_dynamic_passrate\<close> returns when every test run does.
  When it returns, \<open>weighted_score\<close> holds the single-precision sum of the weights of
  the tests that passed, divided in single precision by the single-precision sum of
  all weights and multiplied in single precision by 100, if that sum of all weights is
  greater than zero; it holds 0 if that sum is zero, negative or not a number. Both
  sums are accumulated in suite order. With weights 1, 2, 1 and only the second test
  failing, the weighted score is 50. With weights 1, 2 and only the first test passing
  it is \<open>8738134 / 2\<^sup>1\<^sup>8\<close>, the rounded product by 100 of the rounded third; with two
  tests of weight \<open>2\<^sup>1\<^sup>2\<^sup>7\<close> that pass, both sums are infinite and it is not a number.
\<close>

theorem weighted_pass_rate:
  "(all_return envs 0 (tests suite) w \<longrightarrow>
      (\<exists>rate m w'. calculate_dynamic_passrate envs suite metrics w = Some (rate, m, w'))) \<and>
   (\<forall>rate m w'. calculate_dynamic_passrate envs suite metrics w = Some (rate, m, w') \<longrightarrow>
      weighted_score m =
        (if fpos (float_sum (map weight (tests suite)))
         then fmul (fdiv (float_sum (passed_weights (tests suite)
                                       (verdicts envs 0 (tests suite) w)))
                         (float_sum (map weight (tests suite))))
                   (Finite 100)
         else 0) \<and>
      (map weight (tests suite) = [Finite 1, Finite 2, Finite 1] \<and>
       verdicts envs 0 (tests suite) w = [True, False, True] \<longrightarrow>
         weighted_score m = Finite 50) \<and>
      (map weight (tests suite) = [Finite 1, Finite 2] \<and>
       verdicts envs 0 (tests suite) w = [True, False] \<longrightarrow>
         weighted_score m = Finite (4369067 / 131072)) \<and>
      (map weight (tests suite) = [Finite (2 ^ 127), Finite (2 ^ 127)] \<and>
       verdicts envs 0 (tests suite) w = [True, True] \<longrightarrow>
         weighted_score m = NaN))"
proof -
  let ?vs = "verdicts envs 0 (tests suite) w"
  let ?formula = "if fpos (float_sum (map weight (tests suite)))
         then fmul (fdiv (float_sum (passed_weights (tests suite) ?vs))
                         (float_sum (map weight (tests suite))))
                   (Finite 100)
         else 0"
  have returns: "all_return envs 0 (tests suite) w \<longrightarrow>
      (\<exists>rate m w'. calculate_dynamic_passrate envs suite metrics w = Some (rate, m, w'))"
    using calculate_dynamic_passrate_result [of envs suite w metrics] by blast
  have result: "weighted_score m = ?formula \<and>
      (map weight (tests suite) = [Finite 1, Finite 2, Finite 1] \<and>
       ?vs = [True, False, True] \<longrightarrow> weighted_score m = Finite 50) \<and>
      (map weight (tests suite) = [Finite 1, Finite 2] \<and>
       ?vs = [True, False] \<longrightarrow> weighted_score m = Finite (4369067 / 131072)) \<and>
      (map weight (tests suite) = [Finite (2 ^ 127), Finite (2 ^ 127)] \<and>
       ?vs = [True, True] \<longrightarrow> weighted_score m = NaN)"
    if run: "calculate_dynamic_passrate envs suite metrics w = Some (rate, m, w')"
    for rate m w'
  proof -
    have "all_return envs 0 (tests suite) w"
      using run calculate_dynamic_passrate_returns_iff [of envs suite metrics w] by blast
    from calculate_dynamic_passrate_result [OF this, of metrics] run
    have ws: "weighted_score m = ?formula" by auto
    have ex1: "map weight (tests suite) = [Finite 1, Finite 2, Finite 1] \<and>
       ?vs = [True, False, True] \<longrightarrow> weighted_score m = Finite 50"
    proof (intro impI, elim conjE)
      assume wt: "map weight (tests suite) = [Finite 1, Finite 2, Finite 1]"
        and v: "?vs = [True, False, True]"
      have pw: "passed_weights (tests suite) ?vs = [Finite 1, Finite 1]"
        unfolding passed_weights_map wt v by simp
      have "fpos (Finite 4)" by simp
      then show "weighted_score m = Finite 50"
        unfolding ws pw wt two_of_four(1,2) by (simp only: if_True two_of_four(3))
    qed
    have ex2: "map weight (tests suite) = [Finite 1, Finite 2] \<and>
       ?vs = [True, False] \<longrightarrow> weighted_score m = Finite (4369067 / 131072)"
    proof (intro impI, elim conjE)
      assume wt: "map weight (tests suite) = [Finite 1, Finite 2]"
        and v: "?vs = [True, False]"
      have pw: "passed_weights (tests suite) ?vs = [Finite 1]"
        unfolding passed_weights_map wt v by simp
      have "fpos (Finite 3)" by simp
      then show "weighted_score m = Finite (4369067 / 131072)"
        unfolding ws pw wt one_of_three(1,2) by (simp only: if_True one_of_three(3))
    qed
    have ex3: "map weight (tests suite) = [Finite (2 ^ 127), Finite (2 ^ 127)] \<and>
       ?vs = [True, True] \<longrightarrow> weighted_score m = NaN"
    proof (intro impI, elim conjE)
      assume wt: "map weight (tests suite) = [Finite (2 ^ 127), Finite (2 ^ 127)]"
        and v: "?vs = [True, True]"
      have pw: "passed_weights (tests suite) ?vs = [Finite (2 ^ 127), Finite (2 ^ 127)]"
        unfolding passed_weights_map wt v by (simp del: power_numeral)
      show "weighted_score m = NaN"
        unfolding ws pw wt two_of_two_too_large by simp
    qed
    from ws ex1 ex2 ex3 show ?thesis by (intro conjI)
  qed
  from returns result show ?thesis by blast
qed

theorem weighted_pass_rate_witness:
  "all_return always_calm 0 (tests weighted_suite) boot \<and>
   map weight (tests weighted_suite) = [Finite 1, Finite 2, Finite 1] \<and>
   verdicts always_calm 0 (tests weighted_suite) boot = [True, False, True] \<and>
   weighted_result (calculate_dynamic_passrate always_calm weighted_suite zero_metrics boot)
     = Some (Finite 50) \<and>
   all_return always_calm 0 (tests thirds_suite) boot \<and>
   map weight (tests thirds_suite) = [Finite 1, Finite 2] \<and>
   verdicts always_calm 0 (tests thirds_suite) boot = [True, False] \<and>
   weighted_result (calculate_dynamic_passrate always_calm thirds_suite zero_metrics boot)
     = Some (Finite (4369067 / 131072)) \<and>
   all_return always_calm 0 (tests heavy_suite) boot \<and>
   map weight (tests heavy_suite) = [Finite (2 ^ 127), Finite (2 ^ 127)] \<and>
   verdicts always_calm 0 (tests heavy_suite) boot = [True, True] \<and>
   weighted_result (calculate_dynamic_passrate always_calm heavy_suite zero_metrics boot)
     = Some NaN"
proof -
  have ar: "all_return always_calm 0 (tests weighted_suite) boot"
    "all_return always_calm 0 (tests thirds_suite) boot"
    "all_return always_calm 0 (tests heavy_suite) boot"
    by (simp_all add: always_calm_eq calm_all_return)
  have w1: "map weight (tests weighted_suite) = [Finite 1, Finite 2, Finite 1]"
    by (simp add: weighted_suite_def)
  have w2: "map weight (tests thirds_suite) = [Finite 1, Finite 2]"
    by (simp add: thirds_suite_def)
  have w3: "map weight (tests heavy_suite) = [Finite (2 ^ 127), Finite (2 ^ 127)]"
    by (simp add: heavy_suite_def del: power_numeral)
  have v1: "verdicts always_calm 0 (tests weighted_suite) boot = [True, False, True]"
    by (simp add: always_calm_eq weighted_suite_verdicts)
  have v2: "verdicts always_calm 0 (tests thirds_suite) boot = [True, False]"
    by (simp add: always_calm_eq thirds_suite_verdicts)
  have v3: "verdicts always_calm 0 (tests heavy_suite) boot = [True, True]"
    by (simp add: always_calm_eq heavy_suite_verdicts)
  note c1 = weighted_pass_rate [of always_calm weighted_suite boot zero_metrics]
  note c2 = weighted_pass_rate [of always_calm thirds_suite boot zero_metrics]
  note c3 = weighted_pass_rate [of always_calm heavy_suite boot zero_metrics]
  from c1 ar(1) obtain rate1 m1 s1 where
    run1: "calculate_dynamic_passrate always_calm weighted_suite zero_metrics boot
            = Some (rate1, m1, s1)"
    by blast
  from c2 ar(2) obtain rate2 m2 s2 where
    run2: "calculate_dynamic_passrate always_calm thirds_suite zero_metrics boot
            = Some (rate2, m2, s2)"
    by blast
  from c3 ar(3) obtain rate3 m3 s3 where
    run3: "calculate_dynamic_passrate always_calm heavy_suite zero_metrics boot
            = Some (rate3, m3, s3)"
    by blast
  from c1 [THEN conjunct2, rule_format, OF run1] w1 v1
  have "weighted_score m1 = Finite 50" by blast
  then have r1: "weighted_result
               (calculate_dynamic_passrate always_calm weighted_suite zero_metrics boot)
             = Some (Finite 50)"
    by (simp add: weighted_result_def run1)
  from c2 [THEN conjunct2, rule_format, OF run2] w2 v2
  have "weighted_score m2 = Finite (4369067 / 131072)" by blast
  then have r2: "weighted_result
               (calculate_dynamic_passrate always_calm thirds_suite zero_metrics boot)
             = Some (Finite (4369067 / 131072))"
    by (simp add: weighted_result_def run2)
  from c3 [THEN conjunct2, rule_format, OF run3] w3 v3
  have "weighted_score m3 = NaN" by blast
  then have r3: "weighted_result
               (calculate_dynamic_passrate always_calm heavy_suite zero_metrics boot)
             = Some NaN"
    by (simp add: weighted_result_def run3)
  from ar w1 w2 w3 v1 v2 v3 r1 r2 r3 show ?thesis by (intro conjI)
qed

section \<open>main: exit codes and the report\<close>

lemma main_compiled:
  assumes "3 \<le> argc env" "load_outcome env = Some suite" "mkdtemp_outcome env = Some dir"
    and "compiles env dir"
  shows "main env st =
     (case calculate_dynamic_passrate (test_env env) suite zero_metrics (os st) of
        None \<Rightarrow> None
      | Some (rate, m1, w1) \<Rightarrow>
          (case analyze_memory env
                  (st\<lparr>test_suite := suite, temp_dir_path := snprintf 256 dir,
                      scratch_dirs := dir # scratch_dirs st,
                      executable_path := snprintf 256 (snprintf 256 dir @ ''/user_program''),
                      os := w1\<rparr>) of
             None \<Rightarrow> None
           | Some (mem, st4) \<Rightarrow>
               (case check_robustness (probe_env env) (os st4) of
                  None \<Rightarrow> None
                | Some (rob, w2) \<Rightarrow>
                    Some (0, write_enhanced_results_to_json env
                               (m1\<lparr>passrate := rate, memory_score := mem,
                                   robustness_score := rob,
                                   execution_time_ms :=
                                     current_time_ms w2 - current_time_ms (os st)\<rparr>)
                               (st4\<lparr>os := w2\<rparr>)))))"
  using assms
  by (simp add: main_def compile_source_def compiles_def Let_def
           split: option.splits prod.splits)

lemma main_not_compiled:
  assumes "3 \<le> argc env" "load_outcome env = Some suite" "mkdtemp_outcome env = Some dir"
    and "\<not> compiles env dir"
  shows "main env st =
     Some (1, write_enhanced_results_to_json env zero_metrics
                (st\<lparr>test_suite := suite, temp_dir_path := snprintf 256 dir,
                    scratch_dirs := dir # scratch_dirs st,
                    executable_path := snprintf 256 (snprintf 256 dir @ ''/user_program'')\<rparr>))"
  using assms
  by (auto simp: main_def compile_source_def compiles_def Let_def exited_zero
           split: option.splits prod.splits)


lemma main_no_suite:
  "3 \<le> argc env \<Longrightarrow> load_outcome env = None \<Longrightarrow> main env st = Some (1, st)"
  by (simp add: main_def)

lemma main_no_dir:
  "3 \<le> argc env \<Longrightarrow> load_outcome env = Some suite \<Longrightarrow> mkdtemp_outcome env = None \<Longrightarrow>
     main env st = Some (1, st\<lparr>test_suite := suite\<rparr>)"
  by (simp add: main_def Let_def)


lemma check_robustness_returns: "\<exists>r w'. check_robustness env w = Some (r, w')"
proof (cases "fork_fails env")
  case True
  then show ?thesis by (simp add: check_robustness_fork_fails)
next
  case nf: False
  show ?thesis
  proof (cases "\<exists>k. seen_by_poll env (probe_start env w) 1000 (probed env w) k")
    case True
    then obtain k where "seen_by_poll env (probe_start env w) 1000 (probed env w) k" ..
    from check_robustness_seen [OF nf this] show ?thesis by blast
  next
    case False
    then have "\<forall>k. \<not> seen_by_poll env (probe_start env w) 1000 (probed env w) k" by blast
    from check_robustness_unseen [OF nf this] show ?thesis by blast
  qed
qed

lemma analyze_memory_returns:
  assumes "\<forall>command. checker_outcome env command \<noteq> None"
  shows "\<exists>r st'. analyze_memory env st = Some (r, st')"
proof -
  from assms have "checker_outcome env (valgrind_command st) \<noteq> None" by blast
  then obtain log_file where "checker_outcome env (valgrind_command st) = Some log_file"
    by (cases "checker_outcome env (valgrind_command st)") auto
  then show ?thesis
    by (cases log_file) (simp_all add: analyze_memory_def Let_def)
qed



lemma main_returns:
  assumes "3 \<le> argc env" "load_outcome env = Some suite" "mkdtemp_outcome env = Some dir"
    and "compiles env dir" and "\<forall>command. checker_outcome env command \<noteq> None"
    and "all_return (test_env env) 0 (tests suite) (os st)"
  shows "\<exists>st'. main env st = Some (0, st')"
proof -
  from calculate_dynamic_passrate_result [OF assms(6), of zero_metrics]
  obtain rate m1 w1 where
    c: "calculate_dynamic_passrate (test_env env) suite zero_metrics (os st) = Some (rate, m1, w1)"
    by blast
  let ?st3 = "st\<lparr>test_suite := suite, temp_dir_path := snprintf 256 dir,
                      scratch_dirs := dir # scratch_dirs st,
                      executable_path := snprintf 256 (snprintf 256 dir @ ''/user_program''),
                      os := w1\<rparr>"
  from analyze_memory_returns [OF assms(5), of ?st3]
  obtain mem st4 where a: "analyze_memory env ?st3 = Some (mem, st4)" by blast
  from check_robustness_returns [of "probe_env env" "os st4"]
  obtain rob w2 where r: "check_robustness (probe_env env) (os st4) = Some (rob, w2)" by blast
  show ?thesis
    unfolding main_compiled [OF assms(1-4)] by (simp add: c a r)
qed

lemma main_code_zero:
  assumes "3 \<le> argc env" "load_outcome env = Some suite" "mkdtemp_outcome env = Some dir"
    and "compiles env dir" and "main env st = Some (code, st')"
  shows "code = 0"
  using assms(5) unfolding main_compiled [OF assms(1-4)]
  by (auto split: option.splits)

lemma zero_report:
  "\<not> results_fopen_fails env \<Longrightarrow>
     \<exists>rep. results_json (write_enhanced_results_to_json env zero_metrics st) = Some rep \<and>
           all_zero rep"
  by (simp add: write_enhanced_results_to_json_def zero_metrics_def all_zero_def)

lemma main_blocked:
  assumes "3 \<le> argc env" "load_outcome env = Some suite" "mkdtemp_outcome env = Some dir"
    and "compiles env dir" and "\<not> all_return (test_env env) 0 (tests suite) (os st)"
  shows "main env st = None"
  unfolding main_compiled [OF assms(1-4)]
  by (simp add: calculate_dynamic_passrate_none [OF assms(5)])



lemma smooth_setup:
  "3 \<le> argc smooth" "load_outcome smooth = Some sum_suite"
  "mkdtemp_outcome smooth = Some ''/tmp/safe_eval_a1b2c3''"
  "compiles smooth ''/tmp/safe_eval_a1b2c3''"
  "\<forall>command. checker_outcome smooth command \<noteq> None"
  "\<not> results_fopen_fails smooth" "test_env smooth = (\<lambda>i. calm)"
  "all_return (test_env smooth) 0 (tests sum_suite) (os idle)"
  by (simp_all add: smooth_def audit_env_def compiles_def calm_all_return)



text \<open>
  Claim C8. With both arguments given, \<open>main\<close> returns 1 when the test definitions
  cannot be loaded, when the scratch directory cannot be created, and when the
  compiler does not exit with status 0; in the last case it first calls
  \<open>write_enhanced_results_to_json\<close> with all-zero metrics, which writes a report of
  zeros if the report file can be opened. When the set-up and the compilation succeed,
  every return of \<open>main\<close> is with 0, whatever the scores, and \<open>main\<close> does return
  if every test run and the memory checker's command do.
\<close>

theorem main_exit_code:
  assumes "3 \<le> argc env"
  shows "(load_outcome env = None \<longrightarrow> map_option fst (main env st) = Some 1) \<and>
         (\<forall>suite. load_outcome env = Some suite \<and> mkdtemp_outcome env = None \<longrightarrow>
            map_option fst (main env st) = Some 1) \<and>
         (\<forall>suite dir. load_outcome env = Some suite \<and> mkdtemp_outcome env = Some dir \<and>
              \<not> compiles env dir \<longrightarrow>
            (\<exists>st3 st'. main env st = Some (1, st') \<and>
               st' = write_enhanced_results_to_json env zero_metrics st3 \<and>
               (\<not> results_fopen_fails env \<longrightarrow>
                  (\<exists>rep. results_json st' = Some rep \<and> all_zero rep)))) \<and>
         (\<forall>suite dir. load_outcome env = Some suite \<and> mkdtemp_outcome env = Some dir \<and>
              compiles env dir \<longrightarrow>
            (\<forall>code st'. main env st = Some (code, st') \<longrightarrow> code = 0) \<and>
            ((\<forall>command. checker_outcome env command \<noteq> None) \<and>
             all_return (test_env env) 0 (tests suite) (os st) \<longrightarrow>
               (\<exists>st'. main env st = Some (0, st'))))"
proof (intro conjI allI impI)
  assume "load_outcome env = None"
  then show "map_option fst (main env st) = Some 1"
    using assms by (simp add: main_no_suite)
next
  fix suite
  assume "load_outcome env = Some suite \<and> mkdtemp_outcome env = None"
  then show "map_option fst (main env st) = Some 1"
    using assms by (simp add: main_no_dir)
next
  fix suite dir
  assume a: "load_outcome env = Some suite \<and> mkdtemp_outcome env = Some dir \<and>
             \<not> compiles env dir"
  let ?st3 = "st\<lparr>test_suite := suite, temp_dir_path := snprintf 256 dir,
                    scratch_dirs := dir # scratch_dirs st,
                    executable_path := snprintf 256 (snprintf 256 dir @ ''/user_program'')\<rparr>"
  have m: "main env st = Some (1, write_enhanced_results_to_json env zero_metrics ?st3)"
    using a assms by (simp add: main_not_compiled)
  have "\<not> results_fopen_fails env \<longrightarrow>
          (\<exists>rep. results_json (write_enhanced_results_to_json env zero_metrics ?st3) = Some rep \<and>
                 all_zero rep)"
    using zero_report by blast
  with m show "\<exists>st3 st'. main env st = Some (1, st') \<and>
               st' = write_enhanced_results_to_json env zero_metrics st3 \<and>
               (\<not> results_fopen_fails env \<longrightarrow>
                  (\<exists>rep. results_json st' = Some rep \<and> all_zero rep))"
    by blast
next
  fix suite dir code st'
  assume "load_outcome env = Some suite \<and> mkdtemp_outcome env = Some dir \<and> compiles env dir"
    and "main env st = Some (code, st')"
  then show "code = 0" using assms main_code_zero by blast
next
  fix suite dir
  assume "load_outcome env = Some suite \<and> mkdtemp_outcome env = Some dir \<and> compiles env dir"
    and "(\<forall>command. checker_outcome env command \<noteq> None) \<and>
         all_return (test_env env) 0 (tests suite) (os st)"
  then show "\<exists>st'. main env st = Some (0, st')"
    using assms main_returns by blast
qed

lemma no_build_setup:
  "3 \<le> argc no_build" "load_outcome no_build = Some sum_suite"
  "mkdtemp_outcome no_build = Some ''/tmp/safe_eval_a1b2c3''"
  "\<not> compiles no_build ''/tmp/safe_eval_a1b2c3''"
  "\<not> results_fopen_fails no_build"
  by (simp_all add: no_build_def smooth_def audit_env_def compiles_def)

theorem main_exit_code_witness:
  "3 \<le> argc smooth \<and> 3 \<le> argc no_build \<and>
   all_return (test_env smooth) 0 (tests sum_suite) (os idle) \<and>
   map_option fst (main smooth idle) = Some 0 \<and>
   map_option fst (main (smooth\<lparr>load_outcome := None\<rparr>) idle) = Some 1 \<and>
   map_option fst (main (smooth\<lparr>mkdtemp_outcome := None\<rparr>) idle) = Some 1 \<and>
   (\<exists>st' rep. main no_build idle = Some (1, st') \<and> results_json st' = Some rep \<and>
               all_zero rep)"
proof -
  from main_exit_code [OF smooth_setup(1), of idle] smooth_setup(2-5,8)
  have "\<exists>st'. main smooth idle = Some (0, st')" by blast
  then have a: "map_option fst (main smooth idle) = Some 0" by auto
  from main_exit_code [OF no_build_setup(1), of idle] no_build_setup(2-5)
  have b: "\<exists>st' rep. main no_build idle = Some (1, st') \<and> results_json st' = Some rep \<and>
               all_zero rep"
    by blast
  have l: "3 \<le> argc (smooth\<lparr>load_outcome := None\<rparr>)"
    "load_outcome (smooth\<lparr>load_outcome := None\<rparr>) = None"
    by (simp_all add: smooth_setup)
  from main_exit_code [OF l(1), of idle] l(2)
  have c: "map_option fst (main (smooth\<lparr>load_outcome := None\<rparr>) idle) = Some 1" by blast
  have d: "3 \<le> argc (smooth\<lparr>mkdtemp_outcome := None\<rparr>)"
    "load_outcome (smooth\<lparr>mkdtemp_outcome := None\<rparr>) = Some sum_suite"
    "mkdtemp_outcome (smooth\<lparr>mkdtemp_outcome := None\<rparr>) = None"
    by (simp_all add: smooth_setup)
  from main_exit_code [OF d(1), of idle] d(2,3)
  have e: "map_option fst (main (smooth\<lparr>mkdtemp_outcome := None\<rparr>) idle) = Some 1" by blast
  from a b c e smooth_setup(1,8) no_build_setup(1) show ?thesis by blast
qed

section \<open>Further facts: loop bounds, the exit handler\<close>

text \<open>
  A poll that can find the child terminated is among the first 500 of
  \<open>run_test_process\<close> and the first 100 of \<open>check_robustness\<close>.
\<close>

lemma poll_time_lower: "t0 + 10 * k \<le> poll_time env t0 k"
  by (induction k) simp_all

lemma seen_within_500_polls: "seen_by_poll env t0 5000 p k \<Longrightarrow> k < 500"
  using poll_time_lower [of t0 k env] by (simp add: seen_by_poll_def)

lemma seen_within_100_polls: "seen_by_poll env t0 1000 p k \<Longrightarrow> k < 100"
  using poll_time_lower [of t0 k env] by (simp add: seen_by_poll_def)

text \<open>
  Once \<open>main\<close> has registered the exit handler, the process ends with the report and
  the checker's log removed.
\<close>

lemma evaluator_removes_report:
  assumes "3 \<le> argc env" and "evaluator env st = Some (code, st')"
  shows "results_json st' = None \<and> valgrind_log st' = None"
  using assms by (auto simp: evaluator_def cleanup_def Let_def split: option.splits)

end
